theory Spec2Isabelle
  imports Main
begin

section \<open>Strings\<close>

text \<open>
  Python strings are modelled as \<^typ>\<open>string\<close>; code points above 255 are outside the model.
  \<open>BASE_URL\<close> is the module constant of \<^verbatim>\<open>fetch_blfs_sections.py\<close>.
\<close>

definition BASE_URL :: string where
  "BASE_URL = ''https://www.linuxfromscratch.org/blfs/view/stable''"

definition NL :: string where
  "NL = [CHR 0x0A]"

text \<open>
  The characters that \<^verbatim>\<open>str.strip()\<close> removes (those for which \<^verbatim>\<open>str.isspace\<close> holds),
  in the range of \<^typ>\<open>char\<close>: TAB, LF, VT, FF, CR, FS, GS, RS, US, SPACE, NEL, NBSP.
\<close>

definition isspace :: "char \<Rightarrow> bool" where
  "isspace c = (of_char c \<in> {9, 10, 11, 12, 13, 28, 29, 30, 31, 32, 133, 160 :: nat})"

definition lstrip :: "string \<Rightarrow> string" where
  "lstrip s = dropWhile isspace s"

definition rstrip :: "string \<Rightarrow> string" where
  "rstrip s = rev (dropWhile isspace (rev s))"

definition strip :: "string \<Rightarrow> string" where
  "strip s = rstrip (lstrip s)"

definition endswith :: "string \<Rightarrow> string \<Rightarrow> bool" where
  "endswith s suf = (length suf \<le> length s \<and> drop (length s - length suf) s = suf)"

text \<open>\<^verbatim>\<open>str.split()\<close> without argument: the maximal runs of non-whitespace characters.\<close>

definition split_ws :: "string \<Rightarrow> string list" where
  "split_ws s = filter (\<lambda>w. w \<noteq> [])
     (foldr (\<lambda>c acc. if isspace c then [] # acc else (c # hd acc) # tl acc) s [[]])"

section \<open>The parsed document\<close>

text \<open>
  The tree that \<^verbatim>\<open>BeautifulSoup(r.text, "html.parser")\<close> builds. \<open>Text\<close> is a
  \<^verbatim>\<open>NavigableString\<close>; \<open>Comment\<close> stands for the string kinds that \<^verbatim>\<open>get_text\<close> leaves out
  (comments, declarations, doctypes); \<open>Element\<close> is a \<^verbatim>\<open>Tag\<close> with its name, its attribute
  dictionary and its children. A document is the list of its top-level nodes.
\<close>

datatype node =
    Text string
  | Comment string
  | Element string "(string \<times> string) list" "node list"

type_synonym soup = "node list"

fun flatten :: "node \<Rightarrow> node list" where
  "flatten (Text s) = [Text s]"
| "flatten (Comment s) = [Comment s]"
| "flatten (Element n a cs) = Element n a cs # concat (map flatten cs)"

text \<open>\<^verbatim>\<open>.descendants\<close>: every node below, in document order.\<close>

definition descendants :: "node list \<Rightarrow> node list" where
  "descendants cs = concat (map flatten cs)"

fun contents :: "node \<Rightarrow> node list" where
  "contents (Element n a cs) = cs"
| "contents _ = []"

fun is_tag :: "string \<Rightarrow> node \<Rightarrow> bool" where
  "is_tag t (Element n a cs) = (n = t)"
| "is_tag t _ = False"

text \<open>\<^verbatim>\<open>tag.get(key)\<close>: the attribute's value, or \<^verbatim>\<open>None\<close>.\<close>

fun get_attr :: "node \<Rightarrow> string \<Rightarrow> string option" where
  "get_attr (Element n a cs) k = map_of a k"
| "get_attr _ k = None"

fun text_of :: "node \<Rightarrow> string list" where
  "text_of (Text s) = [s]"
| "text_of _ = []"

text \<open>The text fragments below a tag, in document order.\<close>

definition all_strings :: "node \<Rightarrow> string list" where
  "all_strings n = concat (map text_of (descendants (contents n)))"

text \<open>
  \<^verbatim>\<open>tag.get_text(strip=...)\<close>: the fragments joined with the empty separator; with
  \<^verbatim>\<open>strip=True\<close> each fragment is stripped first and the empty ones are dropped.
\<close>

definition get_text :: "bool \<Rightarrow> node \<Rightarrow> string" where
  "get_text strp n =
     (if strp then concat (filter (\<lambda>s. s \<noteq> []) (map strip (all_strings n)))
      else concat (all_strings n))"

text \<open>\<^verbatim>\<open>soup.find("h1")\<close>: the first \<open>h1\<close> tag in document order, or \<^verbatim>\<open>None\<close>.\<close>

definition find_h1 :: "soup \<Rightarrow> node option" where
  "find_h1 sp = find (is_tag ''h1'') (descendants sp)"

text \<open>
  The selector \<^verbatim>\<open>pre.userinput\<close>: \<open>pre\<close> tags whose whitespace-separated \<open>class\<close>
  attribute lists \<open>userinput\<close>.
\<close>

definition has_class :: "string \<Rightarrow> node \<Rightarrow> bool" where
  "has_class c n = (case get_attr n ''class'' of None \<Rightarrow> False | Some v \<Rightarrow> c \<in> set (split_ws v))"

definition select_pre_userinput :: "soup \<Rightarrow> node list" where
  "select_pre_userinput sp =
     filter (\<lambda>n. is_tag ''pre'' n \<and> has_class ''userinput'' n) (descendants sp)"

text \<open>
  The selector \<^verbatim>\<open>a[href$=".html"]\<close>: \<open>a\<close> tags that have an \<open>href\<close> attribute whose value
  ends with \<open>.html\<close>. The selector library matches the value against the pattern
  \<^verbatim>\<open>.*?\.html$\<close>, in which \<^verbatim>\<open>$\<close> stands for the end of the value and also for the place
  before one final newline: a value that ends with \<open>.html\<close> and a newline is selected too.
\<close>

definition href_html :: "node \<Rightarrow> bool" where
  "href_html n =
     (case get_attr n ''href'' of
        None \<Rightarrow> False
      | Some v \<Rightarrow> endswith v ''.html'' \<or> endswith v (''.html'' @ NL))"

definition select_a_html :: "soup \<Rightarrow> node list" where
  "select_a_html sp = filter (\<lambda>n. is_tag ''a'' n \<and> href_html n) (descendants sp)"

section \<open>The network and the standard output\<close>

text \<open>
  What \<^verbatim>\<open>requests.get(url, timeout=t)\<close> gives is fixed by the world: \<open>None\<close> when the call
  itself raises (connection failure, timeout, invalid URL), otherwise the response. The HTML
  parser is the second external collaborator.
\<close>

record response =
  status_code :: nat
  rtext :: string

record world =
  requests_get :: "string \<Rightarrow> nat \<Rightarrow> response option"
  BeautifulSoup :: "string \<Rightarrow> soup"

text \<open>
  A run is observed through the events it produces, in the order they happen: the GET
  requests sent and the strings written to standard output.
\<close>

datatype event = Get string nat | Write string

datatype error = SystemExit nat | RequestException | HTTPError nat | AttributeError

type_synonym run = "(error + unit) \<times> event list"

fun written :: "event \<Rightarrow> string" where
  "written (Write s) = s"
| "written (Get u t) = []"

definition stdout :: "event list \<Rightarrow> string" where
  "stdout evs = concat (map written evs)"

fun is_get :: "event \<Rightarrow> bool" where
  "is_get (Get u t) = True"
| "is_get (Write s) = False"

definition requests :: "event list \<Rightarrow> event list" where
  "requests evs = filter is_get evs"

text \<open>\<^verbatim>\<open>print(s)\<close> writes \<open>s\<close> and a newline.\<close>

definition print :: "string \<Rightarrow> event list" where
  "print s = [Write (s @ NL)]"

text \<open>
  \<^verbatim>\<open>r.raise_for_status()\<close> raises \<^verbatim>\<open>HTTPError\<close> for a client error (4xx) or a server
  error (5xx) and returns otherwise.
\<close>

definition raise_for_status :: "response \<Rightarrow> error option" where
  "raise_for_status r =
     (if 400 \<le> status_code r \<and> status_code r < 600 then Some (HTTPError (status_code r))
      else None)"

text \<open>Sequencing: an exception ends the run, keeping the events so far.\<close>

definition and_then :: "run \<Rightarrow> run \<Rightarrow> run" where
  "and_then a b = (case a of (Inl e, evs) \<Rightarrow> (Inl e, evs) | (Inr u, evs) \<Rightarrow> (fst b, evs @ snd b))"

section \<open>The program\<close>

text \<open>The loop \<^verbatim>\<open>for pre in soup.select("pre.userinput")\<close> of \<open>fetch_package\<close>.\<close>

fun print_blocks :: "node list \<Rightarrow> event list" where
  "print_blocks [] = []"
| "print_blocks (pre # pres) = print (strip (get_text False pre)) @ print [] @ print_blocks pres"

definition fetch_package :: "world \<Rightarrow> string \<Rightarrow> run" where
  "fetch_package w url =
     (case requests_get w url 30 of
        None \<Rightarrow> (Inl RequestException, [Get url 30])
      | Some r \<Rightarrow>
          (case raise_for_status r of
             Some e \<Rightarrow> (Inl e, [Get url 30])
           | None \<Rightarrow>
               (let sp = BeautifulSoup w (rtext r) in
                case find_h1 sp of
                  None \<Rightarrow> (Inl AttributeError, [Get url 30])
                | Some h1 \<Rightarrow>
                    (let title = get_text True h1 in
                     (Inr (), Get url 30 # print (''# '' @ title @ NL)
                                @ print_blocks (select_pre_userinput sp))))))"

text \<open>An f-string renders \<^verbatim>\<open>None\<close> as the text \<open>None\<close>.\<close>

fun fmt :: "string option \<Rightarrow> string" where
  "fmt None = ''None''"
| "fmt (Some s) = s"

text \<open>The loop \<^verbatim>\<open>for a in soup.select('a[href$=".html"]')\<close> of \<open>fetch_chapter\<close>.\<close>

fun fetch_links :: "world \<Rightarrow> string \<Rightarrow> node list \<Rightarrow> run" where
  "fetch_links w ch [] = (Inr (), [])"
| "fetch_links w ch (a # as) =
     (let href = get_attr a ''href'' in
      if href = Some ''index.html'' then fetch_links w ch as
      else and_then (fetch_package w (BASE_URL @ ''/'' @ ch @ ''/'' @ fmt href))
                    (fetch_links w ch as))"

definition fetch_chapter :: "world \<Rightarrow> string \<Rightarrow> run" where
  "fetch_chapter w ch =
     (let index_url = BASE_URL @ ''/'' @ ch @ ''/'' in
      case requests_get w index_url 30 of
        None \<Rightarrow> (Inl RequestException, [Get index_url 30])
      | Some r \<Rightarrow>
          (case raise_for_status r of
             Some e \<Rightarrow> (Inl e, [Get index_url 30])
           | None \<Rightarrow>
               (let sp = BeautifulSoup w (rtext r);
                    (res, evs) = fetch_links w ch (select_a_html sp)
                in (res, Get index_url 30 # evs))))"

text \<open>The loop \<^verbatim>\<open>for chapter in sys.argv[1:]\<close>.\<close>

fun fetch_chapters :: "world \<Rightarrow> string list \<Rightarrow> run" where
  "fetch_chapters w [] = (Inr (), [])"
| "fetch_chapters w (chapter # chapters) =
     and_then (fetch_chapter w chapter) (fetch_chapters w chapters)"

definition usage :: string where
  "usage = ''Usage: fetch_blfs_sections.py CHAPTER [CHAPTER ...]''"

text \<open>The body under \<^verbatim>\<open>if __name__ == "__main__"\<close>; \<open>argv\<close> is \<^verbatim>\<open>sys.argv\<close>.\<close>

definition main :: "world \<Rightarrow> string list \<Rightarrow> run" where
  "main w argv =
     (if length argv < 2 then (Inl (SystemExit 1), print usage)
      else fetch_chapters w (drop 1 argv))"

text \<open>
  The exit status of the interpreter: 0 when the script runs to its end, the argument of
  \<^verbatim>\<open>sys.exit\<close>, and 1 for any other exception that nothing catches.
\<close>

fun exit_status :: "error + unit \<Rightarrow> nat" where
  "exit_status (Inr u) = 0"
| "exit_status (Inl (SystemExit n)) = n"
| "exit_status (Inl e) = 1"

section \<open>Observations on runs\<close>

text \<open>
  The qualifying links of an index page: the \<open>href\<close> values of the anchors, in document
  order, that end in \<open>.html\<close>, or in \<open>.html\<close> and one final newline, and are not exactly
  \<open>index.html\<close>.
\<close>

definition package_hrefs :: "soup \<Rightarrow> string list" where
  "package_hrefs sp =
     [h. Element n a cs \<leftarrow> descendants sp, n = ''a'', Some h \<leftarrow> [map_of a ''href''],
         endswith h ''.html'' \<or> endswith h (''.html'' @ NL), h \<noteq> ''index.html'']"

text \<open>
  A run stops at the events that \<open>F\<close> marks with an error: such an event is the last one of
  the run, and the run ends with that error.
\<close>

definition stops_at :: "(event \<Rightarrow> error option) \<Rightarrow> run \<Rightarrow> bool" where
  "stops_at F rn =
     (\<forall>pre e post err. snd rn = pre @ e # post \<and> F e = Some err \<longrightarrow> post = [] \<and> fst rn = Inl err)"

text \<open>A request whose response makes \<open>raise_for_status\<close> raise.\<close>

definition http_failure :: "world \<Rightarrow> event \<Rightarrow> error option" where
  "http_failure w e =
     (case e of
        Get u t \<Rightarrow> (case requests_get w u t of None \<Rightarrow> None | Some r \<Rightarrow> raise_for_status r)
      | Write s \<Rightarrow> None)"

text \<open>
  A request for a package page (its URL ends in \<open>.html\<close>; an index URL ends in a slash) whose
  response passes \<open>raise_for_status\<close> and holds no \<open>h1\<close>.
\<close>

definition missing_heading :: "world \<Rightarrow> event \<Rightarrow> error option" where
  "missing_heading w e =
     (case e of
        Get u t \<Rightarrow>
          (case requests_get w u t of
             None \<Rightarrow> None
           | Some r \<Rightarrow>
               if endswith u ''.html'' \<and> raise_for_status r = None
                  \<and> find_h1 (BeautifulSoup w (rtext r)) = None
               then Some AttributeError else None)
      | Write s \<Rightarrow> None)"

text \<open>A page is fetched and printed: a response arrives, its status passes, and it has a heading.\<close>

definition page_ok :: "world \<Rightarrow> string \<Rightarrow> bool" where
  "page_ok w url =
     (case requests_get w url 30 of
        None \<Rightarrow> False
      | Some r \<Rightarrow> raise_for_status r = None \<and> find_h1 (BeautifulSoup w (rtext r)) \<noteq> None)"

text \<open>
  A chapter is walked to its end: the response to the index request arrives and its status
  passes, and each qualifying link leads to a page that is fetched and printed.
\<close>

definition chapter_ok :: "world \<Rightarrow> string \<Rightarrow> bool" where
  "chapter_ok w ch =
     (case requests_get w (BASE_URL @ ''/'' @ ch @ ''/'') 30 of
        None \<Rightarrow> False
      | Some r \<Rightarrow>
          raise_for_status r = None
          \<and> list_all (\<lambda>h. page_ok w (BASE_URL @ ''/'' @ ch @ ''/'' @ h))
               (package_hrefs (BeautifulSoup w (rtext r))))"

text \<open>The elements of a list up to and including the first one that is not \<open>ok\<close>.\<close>

definition up_to_first_failure :: "('a \<Rightarrow> bool) \<Rightarrow> 'a list \<Rightarrow> 'a list" where
  "up_to_first_failure ok xs = takeWhile ok xs @ take 1 (dropWhile ok xs)"

text \<open>
  The requests of one chapter: the index, and, when its response arrives and its status
  passes, the qualifying links in document order up to and including the first page that
  is not fetched and printed.
\<close>

definition chapter_requests :: "world \<Rightarrow> string \<Rightarrow> event list" where
  "chapter_requests w ch =
     Get (BASE_URL @ ''/'' @ ch @ ''/'') 30
     # (case requests_get w (BASE_URL @ ''/'' @ ch @ ''/'') 30 of
          None \<Rightarrow> []
        | Some r \<Rightarrow>
            if raise_for_status r = None
            then map (\<lambda>h. Get (BASE_URL @ ''/'' @ ch @ ''/'' @ h) 30)
                   (up_to_first_failure (\<lambda>h. page_ok w (BASE_URL @ ''/'' @ ch @ ''/'' @ h))
                      (package_hrefs (BeautifulSoup w (rtext r))))
            else [])"

section \<open>Runs over a network that may answer differently each time\<close>

text \<open>
  To speak of two runs of the program, the network is a relation: \<open>N url t a\<close> says that
  \<^verbatim>\<open>requests.get(url, timeout=t)\<close> may give \<open>a\<close> (\<open>None\<close>: the call raises). The rules
  follow the statements of the source one by one; \<open>P\<close> is the parser.
\<close>

type_synonym network = "string \<Rightarrow> nat \<Rightarrow> response option \<Rightarrow> bool"

inductive package_run :: "network \<Rightarrow> (string \<Rightarrow> soup) \<Rightarrow> string \<Rightarrow> run \<Rightarrow> bool"
  for N :: network and P :: "string \<Rightarrow> soup"
where
  no_response:
    "N url 30 None \<Longrightarrow> package_run N P url (Inl RequestException, [Get url 30])"
| bad_status:
    "N url 30 (Some r) \<Longrightarrow> raise_for_status r = Some e \<Longrightarrow>
     package_run N P url (Inl e, [Get url 30])"
| no_heading:
    "N url 30 (Some r) \<Longrightarrow> raise_for_status r = None \<Longrightarrow> find_h1 (P (rtext r)) = None \<Longrightarrow>
     package_run N P url (Inl AttributeError, [Get url 30])"
| printed:
    "N url 30 (Some r) \<Longrightarrow> raise_for_status r = None \<Longrightarrow> find_h1 (P (rtext r)) = Some h1 \<Longrightarrow>
     package_run N P url
       (Inr (), Get url 30 # print (''# '' @ get_text True h1 @ NL)
                  @ print_blocks (select_pre_userinput (P (rtext r))))"

inductive links_run :: "network \<Rightarrow> (string \<Rightarrow> soup) \<Rightarrow> string \<Rightarrow> node list \<Rightarrow> run \<Rightarrow> bool"
  for N :: network and P :: "string \<Rightarrow> soup" and ch :: string
where
  no_link: "links_run N P ch [] (Inr (), [])"
| skipped:
    "get_attr a ''href'' = Some ''index.html'' \<Longrightarrow> links_run N P ch as rn \<Longrightarrow>
     links_run N P ch (a # as) rn"
| page_raised:
    "get_attr a ''href'' \<noteq> Some ''index.html'' \<Longrightarrow>
     package_run N P (BASE_URL @ ''/'' @ ch @ ''/'' @ fmt (get_attr a ''href'')) (Inl e, evs) \<Longrightarrow>
     links_run N P ch (a # as) (Inl e, evs)"
| page_returned:
    "get_attr a ''href'' \<noteq> Some ''index.html'' \<Longrightarrow>
     package_run N P (BASE_URL @ ''/'' @ ch @ ''/'' @ fmt (get_attr a ''href'')) (Inr (), evs) \<Longrightarrow>
     links_run N P ch as (res, evs') \<Longrightarrow>
     links_run N P ch (a # as) (res, evs @ evs')"

inductive chapter_run :: "network \<Rightarrow> (string \<Rightarrow> soup) \<Rightarrow> string \<Rightarrow> run \<Rightarrow> bool"
  for N :: network and P :: "string \<Rightarrow> soup"
where
  index_no_response:
    "N (BASE_URL @ ''/'' @ ch @ ''/'') 30 None \<Longrightarrow>
     chapter_run N P ch (Inl RequestException, [Get (BASE_URL @ ''/'' @ ch @ ''/'') 30])"
| index_bad_status:
    "N (BASE_URL @ ''/'' @ ch @ ''/'') 30 (Some r) \<Longrightarrow> raise_for_status r = Some e \<Longrightarrow>
     chapter_run N P ch (Inl e, [Get (BASE_URL @ ''/'' @ ch @ ''/'') 30])"
| walked:
    "N (BASE_URL @ ''/'' @ ch @ ''/'') 30 (Some r) \<Longrightarrow> raise_for_status r = None \<Longrightarrow>
     links_run N P ch (select_a_html (P (rtext r))) (res, evs) \<Longrightarrow>
     chapter_run N P ch (res, Get (BASE_URL @ ''/'' @ ch @ ''/'') 30 # evs)"

inductive chapters_run :: "network \<Rightarrow> (string \<Rightarrow> soup) \<Rightarrow> string list \<Rightarrow> run \<Rightarrow> bool"
  for N :: network and P :: "string \<Rightarrow> soup"
where
  no_chapter: "chapters_run N P [] (Inr (), [])"
| chapter_raised:
    "chapter_run N P chapter (Inl e, evs) \<Longrightarrow>
     chapters_run N P (chapter # chapters) (Inl e, evs)"
| chapter_returned:
    "chapter_run N P chapter (Inr (), evs) \<Longrightarrow> chapters_run N P chapters (res, evs') \<Longrightarrow>
     chapters_run N P (chapter # chapters) (res, evs @ evs')"

inductive main_run :: "network \<Rightarrow> (string \<Rightarrow> soup) \<Rightarrow> string list \<Rightarrow> run \<Rightarrow> bool"
  for N :: network and P :: "string \<Rightarrow> soup"
where
  no_argument: "length argv < 2 \<Longrightarrow> main_run N P argv (Inl (SystemExit 1), print usage)"
| arguments: "\<not> length argv < 2 \<Longrightarrow> chapters_run N P (drop 1 argv) rn \<Longrightarrow> main_run N P argv rn"

text \<open>The network of a world: each request has the one answer the world gives.\<close>

definition network_of :: "world \<Rightarrow> network" where
  "network_of w url t a = (requests_get w url t = a)"

section \<open>A small site for concrete runs\<close>

text \<open>
  Six chapters of a made-up mirror. \<open>general\<close> is well formed; \<open>broken\<close> has the same
  index, but its first page answers 404; \<open>bare\<close> links to a page without a heading;
  the index of \<open>moved\<close> answers 300; \<open>inline\<close> has a heading with inline markup; the
  links of \<open>ragged\<close> have a newline at the end of their \<open>href\<close>. Every other URL does not
  answer.
\<close>

definition site :: "(string \<times> response) list" where
  "site =
    [(BASE_URL @ ''/general/'', \<lparr>status_code = 200, rtext = ''general index''\<rparr>),
     (BASE_URL @ ''/general/a.html'', \<lparr>status_code = 200, rtext = ''page foo''\<rparr>),
     (BASE_URL @ ''/general/b.html'', \<lparr>status_code = 200, rtext = ''page bar''\<rparr>),
     (BASE_URL @ ''/broken/'', \<lparr>status_code = 200, rtext = ''general index''\<rparr>),
     (BASE_URL @ ''/broken/a.html'', \<lparr>status_code = 404, rtext = ''not found''\<rparr>),
     (BASE_URL @ ''/broken/b.html'', \<lparr>status_code = 200, rtext = ''page bar''\<rparr>),
     (BASE_URL @ ''/bare/'', \<lparr>status_code = 200, rtext = ''bare index''\<rparr>),
     (BASE_URL @ ''/bare/n.html'', \<lparr>status_code = 200, rtext = ''page bare''\<rparr>),
     (BASE_URL @ ''/bare/a.html'', \<lparr>status_code = 200, rtext = ''page foo''\<rparr>),
     (BASE_URL @ ''/moved/'', \<lparr>status_code = 300, rtext = []\<rparr>),
     (BASE_URL @ ''/inline/'', \<lparr>status_code = 200, rtext = ''inline index''\<rparr>),
     (BASE_URL @ ''/inline/t.html'', \<lparr>status_code = 200, rtext = ''page inline''\<rparr>),
     (BASE_URL @ ''/ragged/'', \<lparr>status_code = 200, rtext = ''ragged index''\<rparr>),
     (BASE_URL @ ''/ragged/a.html'' @ NL, \<lparr>status_code = 200, rtext = ''page bar''\<rparr>),
     (BASE_URL @ ''/ragged/index.html'' @ NL, \<lparr>status_code = 200, rtext = ''page bar''\<rparr>)]"

text \<open>The trees the parser builds for the bodies above; a body without markup is one text.\<close>

definition link :: "string \<Rightarrow> string \<Rightarrow> node" where
  "link href label = Element ''a'' [(''href'', href)] [Text label]"

definition pages :: "(string \<times> soup) list" where
  "pages =
    [(''general index'',
        [Element ''ul'' []
           [link ''a.html'' ''Foo'', link ''b.html'' ''Bar'', link ''index.html'' ''Up'']]),
     (''page foo'',
        [Element ''h1'' [(''class'', ''sect1'')] [Text ''Foo-1.0''],
         Element ''pre'' [(''class'', ''userinput'')] [Text ''make''],
         Element ''pre'' [(''class'', ''screen'')] [Text ''ok''],
         Element ''pre'' [(''class'', ''userinput'')]
           [Element ''kbd'' [(''class'', ''command'')] [Text ''make install'']]]),
     (''page bar'',
        [Element ''h1'' [] [Text ''Bar-2.0''], Element ''p'' [] [Text ''Nothing to run.'']]),
     (''not found'', [Element ''h1'' [] [Text ''Not Found'']]),
     (''bare index'', [link ''n.html'' ''N'', link ''a.html'' ''Foo'']),
     (''page bare'', [Element ''p'' [] [Text ''No heading here.'']]),
     (''inline index'', [link ''t.html'' ''T'']),
     (''ragged index'', [link (''a.html'' @ NL) ''Foo'', link (''index.html'' @ NL) ''Up'']),
     (''page inline'',
        [Element ''h1'' [] [Text ''Foo '', Element ''b'' [] [Text ''bar'']]])]"

definition demo :: world where
  "demo = \<lparr>requests_get = (\<lambda>url t. map_of site url),
            BeautifulSoup = (\<lambda>s. case map_of pages s of Some sp \<Rightarrow> sp | None \<Rightarrow> [Text s])\<rparr>"

text \<open>A command block with white space around and inside its text.\<close>

definition padded_block :: node where
  "padded_block =
     Element ''pre'' [(''class'', ''userinput'')]
       [Text NL, Element ''kbd'' [] [Text ('' ./configure  --prefix=/usr &&'' @ NL @ ''make '')],
        Comment ''hidden'', Text ('' '' @ NL)]"

section \<open>Events of the basic steps\<close>

lemma stdout_Nil [simp]: "stdout [] = []"
  by (simp add: stdout_def)

lemma stdout_Cons [simp]: "stdout (e # evs) = written e @ stdout evs"
  by (simp add: stdout_def)

lemma stdout_append [simp]: "stdout (xs @ ys) = stdout xs @ stdout ys"
  by (simp add: stdout_def)

lemma requests_Nil [simp]: "requests [] = []"
  by (simp add: requests_def)

lemma requests_Cons [simp]:
  "requests (e # evs) = (if is_get e then e # requests evs else requests evs)"
  by (simp add: requests_def)

lemma requests_append [simp]: "requests (xs @ ys) = requests xs @ requests ys"
  by (simp add: requests_def)

lemma print_blocks_concat:
  "print_blocks pres = concat (map (\<lambda>p. [Write (strip (get_text False p) @ NL), Write NL]) pres)"
  by (induction pres) (simp_all add: print_def)

lemma requests_print [simp]: "requests (print s) = []"
  by (simp add: print_def)

lemma requests_print_blocks [simp]: "requests (print_blocks pres) = []"
  by (induction pres) (simp_all add: print_def)

lemma fetch_package_ok:
  assumes "requests_get w url 30 = Some r" and "raise_for_status r = None"
    and "find_h1 (BeautifulSoup w (rtext r)) = Some h"
  shows "fetch_package w url =
    (Inr (), Get url 30 # print (''# '' @ get_text True h @ NL)
               @ print_blocks (select_pre_userinput (BeautifulSoup w (rtext r))))"
  using assms by (simp add: fetch_package_def)


lemma fetch_package_requests [simp]: "requests (snd (fetch_package w url)) = [Get url 30]"
  by (simp add: fetch_package_def Let_def split: option.splits)

lemma fetch_package_raised:
  "fst (fetch_package w url) = Inl e \<Longrightarrow> snd (fetch_package w url) = [Get url 30]"
  by (simp add: fetch_package_def Let_def split: option.splits)

section \<open>Where a run stops\<close>

lemma stops_at_quiet: "(\<forall>e \<in> set evs. F e = None) \<Longrightarrow> stops_at F (res, evs)"
  by (auto simp: stops_at_def)

lemma stops_at_single: "(\<And>err. F e = Some err \<Longrightarrow> res = Inl err) \<Longrightarrow> stops_at F (res, [e])"
  by (auto simp: stops_at_def Cons_eq_append_conv append_eq_Cons_conv)

lemma stops_at_Cons: "F e = None \<Longrightarrow> stops_at F (res, evs) \<Longrightarrow> stops_at F (res, e # evs)"
  unfolding stops_at_def
  by (auto simp: Cons_eq_append_conv)

lemma stops_at_returned:
  assumes "stops_at F (Inr u, evs)" and "e \<in> set evs"
  shows "F e = None"
proof (cases "F e")
  case (Some err)
  from assms(2) obtain pre post where "evs = pre @ e # post"
    by (auto simp: in_set_conv_decomp)
  with assms(1) Some have "(Inr u :: error + unit) = Inl err"
    unfolding stops_at_def by fastforce
  then show ?thesis by simp
qed simp

lemma stops_at_and_then:
  assumes "stops_at F a" and "stops_at F b"
  shows "stops_at F (and_then a b)"
proof (cases a)
  case (Pair ra ea)
  show ?thesis
  proof (cases ra)
    case (Inl x)
    with Pair assms(1) show ?thesis by (simp add: and_then_def)
  next
    case (Inr u)
    have quiet: "F e = None" if "e \<in> set ea" for e
      using assms(1) that stops_at_returned unfolding Pair Inr by blast
    show ?thesis
      unfolding stops_at_def
    proof (intro allI impI)
      fix pre e post err
      assume h: "snd (and_then a b) = pre @ e # post \<and> F e = Some err"
      then have eq: "ea @ snd b = pre @ e # post" and fe: "F e = Some err"
        by (simp_all add: and_then_def Pair Inr)
      from eq consider (left) us where "ea = pre @ e # us"
        | (right) us where "snd b = us @ e # post"
        by (auto simp: append_eq_append_conv2 append_eq_Cons_conv Cons_eq_append_conv)
      then show "post = [] \<and> fst (and_then a b) = Inl err"
      proof cases
        case left
        then have "e \<in> set ea" by simp
        with quiet fe show ?thesis by simp
      next
        case right
        with assms(2) fe have "post = [] \<and> fst b = Inl err"
          unfolding stops_at_def by blast
        then show ?thesis by (simp add: and_then_def Pair Inr)
      qed
    qed
  qed
qed

lemma http_failure_Write [simp]: "http_failure w (Write s) = None"
  by (simp add: http_failure_def)

lemma missing_heading_Write [simp]: "missing_heading w (Write s) = None"
  by (simp add: missing_heading_def)

lemma writes_print_blocks: "e \<in> set (print_blocks pres) \<Longrightarrow> \<exists>s. e = Write s"
  by (induction pres) (auto simp: print_def)

lemma fetch_package_cases:
  obtains (no_response) "requests_get w url 30 = None"
      "fetch_package w url = (Inl RequestException, [Get url 30])"
  | (bad_status) r e where "requests_get w url 30 = Some r" "raise_for_status r = Some e"
      "fetch_package w url = (Inl e, [Get url 30])"
  | (no_heading) r where "requests_get w url 30 = Some r" "raise_for_status r = None"
      "find_h1 (BeautifulSoup w (rtext r)) = None"
      "fetch_package w url = (Inl AttributeError, [Get url 30])"
  | (printed) r h ws where "requests_get w url 30 = Some r" "raise_for_status r = None"
      "find_h1 (BeautifulSoup w (rtext r)) = Some h"
      "fetch_package w url = (Inr (), Get url 30 # map Write ws)"
proof (cases "requests_get w url 30")
  case None
  then show ?thesis using no_response by (simp add: fetch_package_def)
next
  case (Some r)
  show ?thesis
  proof (cases "raise_for_status r")
    case (Some e)
    with \<open>requests_get w url 30 = Some r\<close> show ?thesis
      using bad_status by (simp add: fetch_package_def)
  next
    case None
    show ?thesis
    proof (cases "find_h1 (BeautifulSoup w (rtext r))")
      case None
      with \<open>requests_get w url 30 = Some r\<close> \<open>raise_for_status r = None\<close> show ?thesis
        using no_heading by (simp add: fetch_package_def)
    next
      case (Some h)
      have "\<exists>ws. print_blocks pres = map Write ws" for pres
      proof (induction pres)
        case Nil
        show ?case by simp
      next
        case (Cons p pres)
        then obtain ws where "print_blocks pres = map Write ws" ..
        then have "print_blocks (p # pres) = map Write ((strip (get_text False p) @ NL) # NL # ws)"
          by (simp add: print_def)
        then show ?case ..
      qed
      then obtain ws where
        "print_blocks (select_pre_userinput (BeautifulSoup w (rtext r))) = map Write ws" ..
      then have "fetch_package w url
          = (Inr (), Get url 30 # map Write ((''# '' @ get_text True h @ NL @ NL) # ws))"
        using \<open>requests_get w url 30 = Some r\<close> \<open>raise_for_status r = None\<close> Some
        by (simp add: fetch_package_def print_def)
      with \<open>requests_get w url 30 = Some r\<close> \<open>raise_for_status r = None\<close> Some show ?thesis
        using printed by blast
    qed
  qed
qed

lemma stops_fetch_package_http: "stops_at (http_failure w) (fetch_package w url)"
proof (cases rule: fetch_package_cases [of w url])
  case no_response
  then show ?thesis by (auto intro!: stops_at_quiet simp: http_failure_def)
next
  case (bad_status r e)
  then show ?thesis by (auto intro!: stops_at_single simp: http_failure_def)
next
  case (no_heading r)
  then show ?thesis by (auto intro!: stops_at_quiet simp: http_failure_def)
next
  case (printed r h ws)
  then show ?thesis by (auto intro!: stops_at_quiet simp: http_failure_def)
qed


lemma stops_fetch_links:
  assumes "\<And>url. stops_at F (fetch_package w url)"
  shows "stops_at F (fetch_links w ch as)"
  by (induction as) (auto simp: Let_def assms intro!: stops_at_and_then stops_at_quiet)



lemma fetch_chapter_cases:
  obtains (no_response) "requests_get w (BASE_URL @ ''/'' @ ch @ ''/'') 30 = None"
      "fetch_chapter w ch = (Inl RequestException, [Get (BASE_URL @ ''/'' @ ch @ ''/'') 30])"
  | (bad_status) r e where "requests_get w (BASE_URL @ ''/'' @ ch @ ''/'') 30 = Some r"
      "raise_for_status r = Some e"
      "fetch_chapter w ch = (Inl e, [Get (BASE_URL @ ''/'' @ ch @ ''/'') 30])"
  | (walked) r where "requests_get w (BASE_URL @ ''/'' @ ch @ ''/'') 30 = Some r"
      "raise_for_status r = None"
      "fetch_chapter w ch =
         (fst (fetch_links w ch (select_a_html (BeautifulSoup w (rtext r)))),
          Get (BASE_URL @ ''/'' @ ch @ ''/'') 30
            # snd (fetch_links w ch (select_a_html (BeautifulSoup w (rtext r)))))"
proof (cases "requests_get w (BASE_URL @ ''/'' @ ch @ ''/'') 30")
  case None
  then show ?thesis using no_response by (simp add: fetch_chapter_def)
next
  case (Some r)
  show ?thesis
  proof (cases "raise_for_status r")
    case (Some e)
    with \<open>requests_get w (BASE_URL @ ''/'' @ ch @ ''/'') 30 = Some r\<close> show ?thesis
      using bad_status by (simp add: fetch_chapter_def)
  next
    case None
    with \<open>requests_get w (BASE_URL @ ''/'' @ ch @ ''/'') 30 = Some r\<close> show ?thesis
      using walked by (simp add: fetch_chapter_def split_beta Let_def)
  qed
qed

lemma stops_fetch_chapter_http: "stops_at (http_failure w) (fetch_chapter w ch)"
proof (cases rule: fetch_chapter_cases [of w ch])
  case no_response
  then show ?thesis by (auto intro!: stops_at_quiet simp: http_failure_def)
next
  case (bad_status r e)
  then show ?thesis by (auto intro!: stops_at_single simp: http_failure_def)
next
  case (walked r)
  have "stops_at (http_failure w) (fetch_links w ch (select_a_html (BeautifulSoup w (rtext r))))"
    by (rule stops_fetch_links) (rule stops_fetch_package_http)
  then show ?thesis
    unfolding walked(3) using walked(1,2)
    by (intro stops_at_Cons) (simp_all add: http_failure_def)
qed


lemma stops_fetch_chapters:
  assumes "\<And>ch. stops_at F (fetch_chapter w ch)"
  shows "stops_at F (fetch_chapters w chs)"
  by (induction chs) (auto simp: assms intro!: stops_at_and_then stops_at_quiet)

lemma stops_main:
  assumes "\<And>ch. stops_at F (fetch_chapter w ch)" and "\<And>s. F (Write s) = None"
  shows "stops_at F (main w argv)"
  using assms by (auto simp: main_def print_def intro!: stops_fetch_chapters stops_at_quiet)

section \<open>Stripping and link selection\<close>

lemma rev_dropWhile_takeWhile:
  "rev (dropWhile P (rev xs)) @ rev (takeWhile P (rev xs)) = xs"
proof -
  have "rev (dropWhile P (rev xs)) @ rev (takeWhile P (rev xs))
      = rev (takeWhile P (rev xs) @ dropWhile P (rev xs))"
    by (simp only: rev_append)
  also have "\<dots> = xs" by simp
  finally show ?thesis .
qed

lemma strip_decomp:
  "\<exists>l r. s = l @ strip s @ r \<and> list_all isspace l \<and> list_all isspace r"
proof -
  define l where "l = takeWhile isspace s"
  define m where "m = dropWhile isspace s"
  define r where "r = rev (takeWhile isspace (rev m))"
  have "m = strip s @ r"
    using rev_dropWhile_takeWhile [of isspace m]
    by (simp add: strip_def rstrip_def lstrip_def r_def m_def)
  moreover have "s = l @ m" by (simp add: l_def m_def)
  moreover have "list_all isspace l"
    by (auto simp: l_def list_all_iff dest: set_takeWhileD)
  moreover have "list_all isspace r"
    by (auto simp: r_def list_all_iff dest: set_takeWhileD)
  ultimately show ?thesis by blast
qed

lemma strip_ends:
  assumes "strip s \<noteq> []"
  shows "\<not> isspace (hd (strip s))" and "\<not> isspace (last (strip s))"
proof -
  define m where "m = dropWhile isspace s"
  have st: "strip s = rev (dropWhile isspace (rev m))"
    by (simp add: strip_def rstrip_def lstrip_def m_def)
  with assms have ne: "dropWhile isspace (rev m) \<noteq> []" by simp
  then show "\<not> isspace (last (strip s))"
    by (simp add: st last_rev hd_dropWhile)
  from ne have "m \<noteq> []" by auto
  then have "\<not> isspace (hd m)" unfolding m_def by (rule hd_dropWhile)
  moreover have "m = strip s @ rev (takeWhile isspace (rev m))"
    using rev_dropWhile_takeWhile [of isspace m] by (simp add: st)
  then have "hd m = hd (strip s)" using assms by (metis hd_append2)
  ultimately show "\<not> isspace (hd (strip s))" by simp
qed

lemma select_a_html_hrefs:
  "[fmt (get_attr a ''href''). a \<leftarrow> select_a_html sp, get_attr a ''href'' \<noteq> Some ''index.html'']
     = package_hrefs sp"
proof -
  have "[fmt (get_attr a ''href''). a \<leftarrow> filter (\<lambda>n. is_tag ''a'' n \<and> href_html n) xs,
            get_attr a ''href'' \<noteq> Some ''index.html'']
      = [h. Element n a cs \<leftarrow> xs, n = ''a'', Some h \<leftarrow> [map_of a ''href''],
            endswith h ''.html'' \<or> endswith h (''.html'' @ NL), h \<noteq> ''index.html'']" for xs
  proof (induction xs)
    case Nil
    show ?case by simp
  next
    case (Cons x xs)
    then show ?case
      by (cases x) (auto simp: href_html_def split: option.splits)
  qed
  then show ?thesis by (simp add: select_a_html_def package_hrefs_def)
qed

lemma fetch_links_requests:
  "\<exists>k \<le> length [fmt (get_attr a ''href''). a \<leftarrow> as, get_attr a ''href'' \<noteq> Some ''index.html''].
     requests (snd (fetch_links w ch as))
       = map (\<lambda>h. Get (BASE_URL @ ''/'' @ ch @ ''/'' @ h) 30)
           (take k [fmt (get_attr a ''href''). a \<leftarrow> as, get_attr a ''href'' \<noteq> Some ''index.html''])
     \<and> (fst (fetch_links w ch as) = Inr () \<longrightarrow>
          k = length [fmt (get_attr a ''href''). a \<leftarrow> as, get_attr a ''href'' \<noteq> Some ''index.html''])"
proof (induction as)
  case Nil
  show ?case by simp
next
  case (Cons a as)
  let ?hs = "[fmt (get_attr a ''href''). a \<leftarrow> as, get_attr a ''href'' \<noteq> Some ''index.html'']"
  let ?G = "\<lambda>h. Get (BASE_URL @ ''/'' @ ch @ ''/'' @ h) 30"
  from Cons obtain k where k: "k \<le> length ?hs"
    "requests (snd (fetch_links w ch as)) = map ?G (take k ?hs)"
    "fst (fetch_links w ch as) = Inr () \<longrightarrow> k = length ?hs" by blast
  show ?case
  proof (cases "get_attr a ''href'' = Some ''index.html''")
    case True
    with k show ?thesis by (intro exI [of _ k]) simp
  next
    case False
    let ?p = "fetch_package w (BASE_URL @ ''/'' @ ch @ ''/'' @ fmt (get_attr a ''href''))"
    have rq: "requests (snd ?p) = [?G (fmt (get_attr a ''href''))]" by simp
    show ?thesis
    proof (cases "fst ?p")
      case (Inl e)
      then have "fetch_links w ch (a # as) = ?p"
        using False by (cases ?p) (simp add: and_then_def)
      with rq Inl False show ?thesis by (intro exI [of _ 1]) simp
    next
      case (Inr u)
      then have "fetch_links w ch (a # as)
          = (fst (fetch_links w ch as), snd ?p @ snd (fetch_links w ch as))"
        using False by (cases ?p) (simp add: and_then_def)
      with rq k False show ?thesis by (intro exI [of _ "Suc k"]) simp
    qed
  qed
qed

section \<open>Chapters in sequence\<close>

lemma stdout_concat: "stdout (concat xss) = concat (map stdout xss)"
  by (induction xss) simp_all

lemma and_then_returned:
  "fst a = Inr () \<Longrightarrow> and_then a b = (fst b, snd a @ snd b)"
  by (cases a) (simp add: and_then_def)

lemma and_then_raised:
  "fst a = Inl e \<Longrightarrow> and_then a b = a"
  by (cases a) (simp add: and_then_def)

lemma result_cases:
  obtains (returned) "fst (a :: run) = Inr ()" | (raised) e where "fst a = Inl e"
  by (cases "fst a") auto

lemma fetch_chapters_events:
  "\<exists>k \<le> length chs.
     snd (fetch_chapters w chs) = concat (map (\<lambda>ch. snd (fetch_chapter w ch)) (take k chs))
     \<and> (fst (fetch_chapters w chs) = Inr () \<longrightarrow> k = length chs)"
proof (induction chs)
  case Nil
  show ?case by simp
next
  case (Cons c chs)
  then obtain k where k: "k \<le> length chs"
    "snd (fetch_chapters w chs) = concat (map (\<lambda>ch. snd (fetch_chapter w ch)) (take k chs))"
    "fst (fetch_chapters w chs) = Inr () \<longrightarrow> k = length chs" by blast
  show ?case
  proof (cases rule: result_cases [of "fetch_chapter w c"])
    case returned
    with k show ?thesis by (intro exI [of _ "Suc k"]) (simp add: and_then_returned)
  next
    case (raised e)
    then show ?thesis by (intro exI [of _ 1]) (simp add: and_then_raised)
  qed
qed

lemma get_in_requests: "Get u t \<in> set (requests evs) \<longleftrightarrow> Get u t \<in> set evs"
  by (auto simp: requests_def)

lemma fetch_chapter_requests:
  obtains (stopped) "fst (fetch_chapter w ch) \<noteq> Inr ()"
      "requests (snd (fetch_chapter w ch)) = [Get (BASE_URL @ ''/'' @ ch @ ''/'') 30]"
  | (walked) r k where "requests_get w (BASE_URL @ ''/'' @ ch @ ''/'') 30 = Some r"
      "raise_for_status r = None"
      "k \<le> length (package_hrefs (BeautifulSoup w (rtext r)))"
      "requests (snd (fetch_chapter w ch))
         = Get (BASE_URL @ ''/'' @ ch @ ''/'') 30
           # map (\<lambda>h. Get (BASE_URL @ ''/'' @ ch @ ''/'' @ h) 30)
               (take k (package_hrefs (BeautifulSoup w (rtext r))))"
      "fst (fetch_chapter w ch) = Inr () \<longrightarrow> k = length (package_hrefs (BeautifulSoup w (rtext r)))"
proof (cases rule: fetch_chapter_cases [of w ch])
  case no_response
  then show ?thesis using stopped by simp
next
  case (bad_status r e)
  then show ?thesis using stopped by simp
next
  case (walked r)
  from fetch_links_requests [of "select_a_html (BeautifulSoup w (rtext r))" w ch]
  obtain k where "k \<le> length (package_hrefs (BeautifulSoup w (rtext r)))"
    "requests (snd (fetch_links w ch (select_a_html (BeautifulSoup w (rtext r)))))
       = map (\<lambda>h. Get (BASE_URL @ ''/'' @ ch @ ''/'' @ h) 30)
           (take k (package_hrefs (BeautifulSoup w (rtext r))))"
    "fst (fetch_links w ch (select_a_html (BeautifulSoup w (rtext r)))) = Inr () \<longrightarrow>
       k = length (package_hrefs (BeautifulSoup w (rtext r)))"
    unfolding select_a_html_hrefs by blast
  with walked show ?thesis using that(2) [of r k] by simp
qed

lemma fetch_chapter_gets:
  assumes "Get u t \<in> set (snd (fetch_chapter w ch))"
  shows "t = 30 \<and> (u = BASE_URL @ ''/'' @ ch @ ''/''
           \<or> (\<exists>r h. requests_get w (BASE_URL @ ''/'' @ ch @ ''/'') 30 = Some r
                  \<and> raise_for_status r = None
                  \<and> h \<in> set (package_hrefs (BeautifulSoup w (rtext r)))
                  \<and> u = BASE_URL @ ''/'' @ ch @ ''/'' @ h))"
proof -
  from assms have g: "Get u t \<in> set (requests (snd (fetch_chapter w ch)))"
    by (simp add: get_in_requests)
  show ?thesis
  proof (cases rule: fetch_chapter_requests [of w ch])
    case stopped
    with g show ?thesis by simp
  next
    case (walked r k)
    from g consider "Get u t = Get (BASE_URL @ ''/'' @ ch @ ''/'') 30"
      | h where "h \<in> set (take k (package_hrefs (BeautifulSoup w (rtext r))))"
          "Get u t = Get (BASE_URL @ ''/'' @ ch @ ''/'' @ h) 30"
      unfolding walked(4) by auto
    then show ?thesis
    proof cases
      case 1
      then show ?thesis by simp
    next
      case 2
      from 2(1) have "h \<in> set (package_hrefs (BeautifulSoup w (rtext r)))"
        by (rule in_set_takeD)
      with 2(2) walked(1,2) show ?thesis by auto
    qed
  qed
qed

lemma package_hrefs_member:
  assumes "h \<in> set (package_hrefs sp)"
  shows "endswith h ''.html'' \<or> endswith h (''.html'' @ NL)" and "h \<noteq> ''index.html''"
  using assms
  by (auto simp: package_hrefs_def split: node.splits option.splits if_splits)

lemma index_html_not_fetched:
  "Get (BASE_URL @ ''/'' @ ch @ ''/'' @ ''index.html'') 30 \<notin> set (snd (fetch_chapter w ch))"
proof
  assume "Get (BASE_URL @ ''/'' @ ch @ ''/'' @ ''index.html'') 30 \<in> set (snd (fetch_chapter w ch))"
  from fetch_chapter_gets [OF this]
  have "\<exists>r :: response. ''index.html'' \<in> set (package_hrefs (BeautifulSoup w (rtext r)))"
    by auto
  then show False using package_hrefs_member(2) by blast
qed

lemma main_chapters: "drop 1 argv \<noteq> [] \<Longrightarrow> main w argv = fetch_chapters w (drop 1 argv)"
  by (cases argv) (auto simp: main_def)

lemma main_event_chapter:
  assumes "Get u t \<in> set (snd (main w argv))"
  shows "\<exists>ch \<in> set (drop 1 argv). Get u t \<in> set (snd (fetch_chapter w ch))"
proof (cases "drop 1 argv = []")
  case True
  then have "length argv < 2" by (cases argv) simp_all
  with assms show ?thesis by (simp add: main_def print_def)
next
  case False
  from fetch_chapters_events [of "drop 1 argv" w] obtain k where
    "snd (fetch_chapters w (drop 1 argv))
       = concat (map (\<lambda>ch. snd (fetch_chapter w ch)) (take k (drop 1 argv)))" by blast
  with assms False obtain ch where "ch \<in> set (take k (drop 1 argv))"
    "Get u t \<in> set (snd (fetch_chapter w ch))"
    by (auto simp: main_chapters)
  then show ?thesis by (blast dest: in_set_takeD)
qed


section \<open>Up to the first failure\<close>

lemma up_to_first_failure_Nil [simp]: "up_to_first_failure ok [] = []"
  by (simp add: up_to_first_failure_def)

lemma up_to_first_failure_Cons [simp]:
  "up_to_first_failure ok (x # xs) = (if ok x then x # up_to_first_failure ok xs else [x])"
  by (simp add: up_to_first_failure_def)

lemma up_to_first_failure_all: "list_all ok xs \<Longrightarrow> up_to_first_failure ok xs = xs"
  by (induction xs) simp_all

lemma fetch_package_returned: "(fst (fetch_package w url) = Inr ()) = page_ok w url"
  by (cases rule: fetch_package_cases [of w url]) (simp_all add: page_ok_def)

lemma fetch_package_no_exit: "fst (fetch_package w url) \<noteq> Inl (SystemExit n)"
  by (cases rule: fetch_package_cases [of w url])
     (auto simp: raise_for_status_def split: if_splits)

lemma fetch_links_exact:
  "requests (snd (fetch_links w ch as))
     = map (\<lambda>h. Get (BASE_URL @ ''/'' @ ch @ ''/'' @ h) 30)
         (up_to_first_failure (\<lambda>h. page_ok w (BASE_URL @ ''/'' @ ch @ ''/'' @ h))
            [fmt (get_attr a ''href''). a \<leftarrow> as, get_attr a ''href'' \<noteq> Some ''index.html''])
   \<and> (fst (fetch_links w ch as) = Inr ())
       = list_all (\<lambda>h. page_ok w (BASE_URL @ ''/'' @ ch @ ''/'' @ h))
           [fmt (get_attr a ''href''). a \<leftarrow> as, get_attr a ''href'' \<noteq> Some ''index.html'']
   \<and> fst (fetch_links w ch as) \<noteq> Inl (SystemExit n)"
proof (induction as)
  case Nil
  show ?case by simp
next
  case (Cons a as)
  show ?case
  proof (cases "get_attr a ''href'' = Some ''index.html''")
    case True
    with Cons show ?thesis by simp
  next
    case False
    let ?p = "fetch_package w (BASE_URL @ ''/'' @ ch @ ''/'' @ fmt (get_attr a ''href''))"
    show ?thesis
    proof (cases rule: result_cases [of ?p])
      case returned
      then have "page_ok w (BASE_URL @ ''/'' @ ch @ ''/'' @ fmt (get_attr a ''href''))"
        by (simp add: fetch_package_returned)
      with returned False Cons show ?thesis by (simp add: and_then_returned)
    next
      case (raised e)
      then have "\<not> page_ok w (BASE_URL @ ''/'' @ ch @ ''/'' @ fmt (get_attr a ''href''))"
        by (simp add: fetch_package_returned [symmetric])
      moreover from raised have "e \<noteq> SystemExit n"
        using fetch_package_no_exit [of w _ n] by auto
      ultimately show ?thesis using raised False by (simp add: and_then_raised)
    qed
  qed
qed

lemma fetch_chapter_exact:
  "requests (snd (fetch_chapter w ch)) = chapter_requests w ch"
  "(fst (fetch_chapter w ch) = Inr ()) = chapter_ok w ch"
  "fst (fetch_chapter w ch) \<noteq> Inl (SystemExit n)"
proof -
  have "requests (snd (fetch_chapter w ch)) = chapter_requests w ch
      \<and> (fst (fetch_chapter w ch) = Inr ()) = chapter_ok w ch
      \<and> fst (fetch_chapter w ch) \<noteq> Inl (SystemExit n)"
  proof (cases rule: fetch_chapter_cases [of w ch])
    case no_response
    then show ?thesis by (simp add: chapter_requests_def chapter_ok_def)
  next
    case (bad_status r e)
    then show ?thesis
      by (auto simp: chapter_requests_def chapter_ok_def raise_for_status_def split: if_splits)
  next
    case (walked r)
    with fetch_links_exact [of w ch "select_a_html (BeautifulSoup w (rtext r))" n]
    show ?thesis
      by (simp add: chapter_requests_def chapter_ok_def select_a_html_hrefs)
  qed
  then show "requests (snd (fetch_chapter w ch)) = chapter_requests w ch"
    "(fst (fetch_chapter w ch) = Inr ()) = chapter_ok w ch"
    "fst (fetch_chapter w ch) \<noteq> Inl (SystemExit n)" by simp_all
qed

lemma fetch_chapters_exact:
  "snd (fetch_chapters w chs)
     = concat (map (\<lambda>ch. snd (fetch_chapter w ch)) (up_to_first_failure (chapter_ok w) chs))
   \<and> (fst (fetch_chapters w chs) = Inr ()) = list_all (chapter_ok w) chs
   \<and> fst (fetch_chapters w chs) \<noteq> Inl (SystemExit n)"
proof (induction chs)
  case Nil
  show ?case by simp
next
  case (Cons c chs)
  show ?case
  proof (cases rule: result_cases [of "fetch_chapter w c"])
    case returned
    then have "chapter_ok w c" by (simp add: fetch_chapter_exact)
    with returned Cons show ?thesis by (simp add: and_then_returned)
  next
    case (raised e)
    then have "\<not> chapter_ok w c" by (simp add: fetch_chapter_exact(2) [symmetric])
    moreover from raised have "e \<noteq> SystemExit n"
      using fetch_chapter_exact(3) [of w c n] by auto
    ultimately show ?thesis using raised by (simp add: and_then_raised)
  qed
qed

lemma requests_concat: "requests (concat xss) = concat (map requests xss)"
  by (induction xss) simp_all

section \<open>Two runs over a network that answers each request in one way\<close>

lemma package_run_answer:
  assumes "package_run N P url rn"
  obtains a where "N url 30 a"
    and "rn = fetch_package \<lparr>requests_get = (\<lambda>u t. a), BeautifulSoup = P\<rparr> url"
  using assms by cases (auto simp: fetch_package_def)

lemma package_run_unique:
  assumes "\<forall>url t a b. N url t a \<and> N url t b \<longrightarrow> a = b"
    and "package_run N P url rn" and "package_run N P url rn'"
  shows "rn' = rn"
proof -
  from assms(2) obtain a where a: "N url 30 a"
    "rn = fetch_package \<lparr>requests_get = (\<lambda>u t. a), BeautifulSoup = P\<rparr> url"
    by (rule package_run_answer)
  from assms(3) obtain b where b: "N url 30 b"
    "rn' = fetch_package \<lparr>requests_get = (\<lambda>u t. b), BeautifulSoup = P\<rparr> url"
    by (rule package_run_answer)
  from assms(1) a(1) b(1) have "a = b" by blast
  with a(2) b(2) show ?thesis by simp
qed

lemma links_run_Nil: "links_run N P ch [] rn \<Longrightarrow> rn = (Inr (), [])"
  by (erule links_run.cases) simp_all

lemma links_run_Cons:
  assumes "links_run N P ch (a # as) rn"
  obtains (skipped) "get_attr a ''href'' = Some ''index.html''" "links_run N P ch as rn"
  | (page_raised) e evs where "get_attr a ''href'' \<noteq> Some ''index.html''"
      "package_run N P (BASE_URL @ ''/'' @ ch @ ''/'' @ fmt (get_attr a ''href'')) (Inl e, evs)"
      "rn = (Inl e, evs)"
  | (page_returned) evs res evs' where "get_attr a ''href'' \<noteq> Some ''index.html''"
      "package_run N P (BASE_URL @ ''/'' @ ch @ ''/'' @ fmt (get_attr a ''href'')) (Inr (), evs)"
      "links_run N P ch as (res, evs')" "rn = (res, evs @ evs')"
  using assms by cases auto

lemma links_run_unique:
  assumes "\<forall>url t a b. N url t a \<and> N url t b \<longrightarrow> a = b"
  shows "links_run N P ch as rn \<Longrightarrow> links_run N P ch as rn' \<Longrightarrow> rn' = rn"
proof (induction as arbitrary: rn rn')
  case Nil
  then show ?case by (auto dest: links_run_Nil)
next
  case (Cons a as)
  let ?url = "BASE_URL @ ''/'' @ ch @ ''/'' @ fmt (get_attr a ''href'')"
  from Cons.prems(1) show ?case
  proof (cases rule: links_run_Cons)
    case skipped
    from Cons.prems(2) show ?thesis
    proof (cases rule: links_run_Cons)
      case skipped
      with \<open>links_run N P ch as rn\<close> show ?thesis by (rule_tac Cons.IH)
    qed (use skipped in simp_all)
  next
    case first: (page_raised e evs)
    from Cons.prems(2) show ?thesis
    proof (cases rule: links_run_Cons)
      case skipped
      with first show ?thesis by simp
    next
      case (page_raised e' evs')
      with package_run_unique [OF assms first(2) page_raised(2)] first(3) show ?thesis by simp
    next
      case (page_returned evs' res evs'')
      with package_run_unique [OF assms first(2) page_returned(2)] show ?thesis by simp
    qed
  next
    case first: (page_returned evs res evs')
    from Cons.prems(2) show ?thesis
    proof (cases rule: links_run_Cons)
      case skipped
      with first show ?thesis by simp
    next
      case (page_raised e' evs'')
      with package_run_unique [OF assms first(2) page_raised(2)] show ?thesis by simp
    next
      case (page_returned evs2 res2 evs2')
      from package_run_unique [OF assms first(2) page_returned(2)] have "evs2 = evs" by simp
      moreover from Cons.IH [OF first(3) page_returned(3)] have "res2 = res" "evs2' = evs'"
        by simp_all
      ultimately show ?thesis using first(4) page_returned(4) by simp
    qed
  qed
qed

lemma chapter_run_answer:
  assumes "chapter_run N P ch rn"
  obtains (index_no_response) "N (BASE_URL @ ''/'' @ ch @ ''/'') 30 None"
      "rn = (Inl RequestException, [Get (BASE_URL @ ''/'' @ ch @ ''/'') 30])"
  | (index_bad_status) r e where "N (BASE_URL @ ''/'' @ ch @ ''/'') 30 (Some r)"
      "raise_for_status r = Some e" "rn = (Inl e, [Get (BASE_URL @ ''/'' @ ch @ ''/'') 30])"
  | (walked) r res evs where "N (BASE_URL @ ''/'' @ ch @ ''/'') 30 (Some r)"
      "raise_for_status r = None" "links_run N P ch (select_a_html (P (rtext r))) (res, evs)"
      "rn = (res, Get (BASE_URL @ ''/'' @ ch @ ''/'') 30 # evs)"
  using assms by cases auto

lemma chapter_run_unique:
  assumes "\<forall>url t a b. N url t a \<and> N url t b \<longrightarrow> a = b"
    and "chapter_run N P ch rn" and "chapter_run N P ch rn'"
  shows "rn' = rn"
proof -
  have same: "a = b"
    if "N (BASE_URL @ ''/'' @ ch @ ''/'') 30 a" and "N (BASE_URL @ ''/'' @ ch @ ''/'') 30 b" for a b
    using assms(1) that by blast
  from assms(2) show ?thesis
  proof (cases rule: chapter_run_answer)
    case first: index_no_response
    from assms(3) show ?thesis
    proof (cases rule: chapter_run_answer)
      case index_no_response
      with first show ?thesis by simp
    next
      case (index_bad_status r e)
      with same [OF first(1) index_bad_status(1)] show ?thesis by simp
    next
      case (walked r res evs)
      with same [OF first(1) walked(1)] show ?thesis by simp
    qed
  next
    case first: (index_bad_status r e)
    from assms(3) show ?thesis
    proof (cases rule: chapter_run_answer)
      case index_no_response
      with same [OF first(1) index_no_response(1)] show ?thesis by simp
    next
      case (index_bad_status r' e')
      with same [OF first(1) index_bad_status(1)] first show ?thesis by simp
    next
      case (walked r' res evs)
      with same [OF first(1) walked(1)] first show ?thesis by simp
    qed
  next
    case first: (walked r res evs)
    from assms(3) show ?thesis
    proof (cases rule: chapter_run_answer)
      case index_no_response
      with same [OF first(1) index_no_response(1)] show ?thesis by simp
    next
      case (index_bad_status r' e')
      with same [OF first(1) index_bad_status(1)] first show ?thesis by simp
    next
      case (walked r' res' evs')
      from same [OF first(1) walked(1)] have "r' = r" by simp
      with walked(3) have "links_run N P ch (select_a_html (P (rtext r))) (res', evs')" by simp
      from links_run_unique [OF assms(1) first(3) this] first(4) walked(4)
      show ?thesis by simp
    qed
  qed
qed

lemma chapters_run_Nil: "chapters_run N P [] rn \<Longrightarrow> rn = (Inr (), [])"
  by (erule chapters_run.cases) simp_all

lemma chapters_run_Cons:
  assumes "chapters_run N P (c # chs) rn"
  obtains (chapter_raised) e evs where "chapter_run N P c (Inl e, evs)" "rn = (Inl e, evs)"
  | (chapter_returned) evs res evs' where "chapter_run N P c (Inr (), evs)"
      "chapters_run N P chs (res, evs')" "rn = (res, evs @ evs')"
  using assms by cases auto

lemma chapters_run_unique:
  assumes "\<forall>url t a b. N url t a \<and> N url t b \<longrightarrow> a = b"
  shows "chapters_run N P chs rn \<Longrightarrow> chapters_run N P chs rn' \<Longrightarrow> rn' = rn"
proof (induction chs arbitrary: rn rn')
  case Nil
  then show ?case by (auto dest: chapters_run_Nil)
next
  case (Cons c chs)
  from Cons.prems(1) show ?case
  proof (cases rule: chapters_run_Cons)
    case first: (chapter_raised e evs)
    from Cons.prems(2) show ?thesis
    proof (cases rule: chapters_run_Cons)
      case (chapter_raised e' evs')
      with chapter_run_unique [OF assms first(1) chapter_raised(1)] first(2) show ?thesis by simp
    next
      case (chapter_returned evs' res evs'')
      with chapter_run_unique [OF assms first(1) chapter_returned(1)] show ?thesis by simp
    qed
  next
    case first: (chapter_returned evs res evs')
    from Cons.prems(2) show ?thesis
    proof (cases rule: chapters_run_Cons)
      case (chapter_raised e' evs'')
      with chapter_run_unique [OF assms first(1) chapter_raised(1)] show ?thesis by simp
    next
      case (chapter_returned evs2 res2 evs2')
      from chapter_run_unique [OF assms first(1) chapter_returned(1)] have "evs2 = evs" by simp
      moreover from Cons.IH [OF first(2) chapter_returned(2)] have "res2 = res" "evs2' = evs'"
        by simp_all
      ultimately show ?thesis using first(3) chapter_returned(3) by simp
    qed
  qed
qed

lemma main_run_unique:
  assumes "\<forall>url t a b. N url t a \<and> N url t b \<longrightarrow> a = b"
    and "main_run N P argv rn" and "main_run N P argv rn'"
  shows "rn' = rn"
  using assms(2)
proof cases
  case no_argument
  from assms(3) show ?thesis by cases (use no_argument in simp_all)
next
  case first: arguments
  from assms(3) show ?thesis
  proof cases
    case no_argument
    with first show ?thesis by simp
  next
    case arguments
    from chapters_run_unique [OF assms(1) first(2) arguments(2)] show ?thesis .
  qed
qed


section \<open>The runs over the network of a world\<close>

lemma network_of_fixed: "\<forall>url t a b. network_of w url t a \<and> network_of w url t b \<longrightarrow> a = b"
  by (simp add: network_of_def)

lemma package_run_world:
  "package_run (network_of w) (BeautifulSoup w) url (fetch_package w url)"
proof (cases rule: fetch_package_cases [of w url])
  case no_response
  from package_run.no_response [of "network_of w" url "BeautifulSoup w"] no_response
  show ?thesis by (simp add: network_of_def)
next
  case (bad_status r e)
  from package_run.bad_status [of "network_of w" url r e "BeautifulSoup w"] bad_status
  show ?thesis by (simp add: network_of_def)
next
  case (no_heading r)
  from package_run.no_heading [of "network_of w" url r "BeautifulSoup w"] no_heading
  show ?thesis by (simp add: network_of_def)
next
  case (printed r h ws)
  from package_run.printed [of "network_of w" url r "BeautifulSoup w" h] printed(1-3)
  show ?thesis by (simp add: network_of_def fetch_package_ok)
qed

lemma links_run_world:
  "links_run (network_of w) (BeautifulSoup w) ch as (fetch_links w ch as)"
proof (induction as)
  case Nil
  show ?case by (simp add: links_run.no_link)
next
  case (Cons a as)
  let ?url = "BASE_URL @ ''/'' @ ch @ ''/'' @ fmt (get_attr a ''href'')"
  show ?case
  proof (cases "get_attr a ''href'' = Some ''index.html''")
    case True
    with Cons show ?thesis by (simp add: links_run.skipped)
  next
    case False
    show ?thesis
    proof (cases rule: result_cases [of "fetch_package w ?url"])
      case returned
      then have p: "package_run (network_of w) (BeautifulSoup w) ?url
                   (Inr (), snd (fetch_package w ?url))"
        using package_run_world [of w ?url] by (metis prod.collapse)
      have l: "links_run (network_of w) (BeautifulSoup w) ch as
                 (fst (fetch_links w ch as), snd (fetch_links w ch as))"
        using Cons by simp
      from links_run.page_returned [OF False p l]
      show ?thesis using returned False by (simp add: and_then_returned)
    next
      case (raised e)
      then have p: "package_run (network_of w) (BeautifulSoup w) ?url
                   (Inl e, snd (fetch_package w ?url))"
        using package_run_world [of w ?url] by (metis prod.collapse)
      have "fetch_links w ch (a # as) = (Inl e, snd (fetch_package w ?url))"
        using raised False by (simp add: and_then_raised prod_eq_iff)
      with links_run.page_raised [OF False p] show ?thesis by simp
    qed
  qed
qed

lemma chapter_run_world:
  "chapter_run (network_of w) (BeautifulSoup w) ch (fetch_chapter w ch)"
proof (cases rule: fetch_chapter_cases [of w ch])
  case no_response
  from chapter_run.index_no_response [of "network_of w" ch "BeautifulSoup w"] no_response
  show ?thesis by (simp add: network_of_def)
next
  case (bad_status r e)
  from chapter_run.index_bad_status [of "network_of w" ch r e "BeautifulSoup w"] bad_status
  show ?thesis by (simp add: network_of_def)
next
  case (walked r)
  have l: "links_run (network_of w) (BeautifulSoup w) ch (select_a_html (BeautifulSoup w (rtext r)))
             (fst (fetch_links w ch (select_a_html (BeautifulSoup w (rtext r)))),
              snd (fetch_links w ch (select_a_html (BeautifulSoup w (rtext r)))))"
    using links_run_world [of w ch "select_a_html (BeautifulSoup w (rtext r))"] by simp
  have n: "network_of w (BASE_URL @ ''/'' @ ch @ ''/'') 30 (Some r)"
    using walked(1) by (simp add: network_of_def)
  from chapter_run.walked [OF n walked(2) l] walked(3) show ?thesis by simp
qed

lemma chapters_run_world:
  "chapters_run (network_of w) (BeautifulSoup w) chs (fetch_chapters w chs)"
proof (induction chs)
  case Nil
  show ?case by (simp add: chapters_run.no_chapter)
next
  case (Cons c chs)
  show ?case
  proof (cases rule: result_cases [of "fetch_chapter w c"])
    case returned
    then have p: "chapter_run (network_of w) (BeautifulSoup w) c (Inr (), snd (fetch_chapter w c))"
      using chapter_run_world [of w c] by (metis prod.collapse)
    have l: "chapters_run (network_of w) (BeautifulSoup w) chs
               (fst (fetch_chapters w chs), snd (fetch_chapters w chs))"
      using Cons by simp
    from chapters_run.chapter_returned [OF p l]
    show ?thesis using returned by (simp add: and_then_returned)
  next
    case (raised e)
    then have p: "chapter_run (network_of w) (BeautifulSoup w) c (Inl e, snd (fetch_chapter w c))"
      using chapter_run_world [of w c] by (metis prod.collapse)
    have "fetch_chapters w (c # chs) = (Inl e, snd (fetch_chapter w c))"
      using raised by (simp add: and_then_raised prod_eq_iff)
    with chapters_run.chapter_raised [OF p] show ?thesis by simp
  qed
qed

lemma main_run_world: "main_run (network_of w) (BeautifulSoup w) argv (main w argv)"
proof (cases "length argv < 2")
  case True
  from main_run.no_argument [OF True] True show ?thesis by (simp add: main_def)
next
  case False
  from main_run.arguments [OF False chapters_run_world] False
  show ?thesis by (simp add: main_def)
qed

section \<open>Runs on the small site\<close>

lemmas run_simps = demo_def site_def pages_def link_def fetch_chapter_def
  fetch_package_def and_then_def select_a_html_def select_pre_userinput_def descendants_def
  find_h1_def href_html_def has_class_def endswith_def split_ws_def isspace_def get_text_def
  all_strings_def strip_def lstrip_def rstrip_def raise_for_status_def print_def Let_def

lemma demo_general:
  "fetch_chapter demo ''general'' =
     (Inr (), [Get (BASE_URL @ ''/general/'') 30,
               Get (BASE_URL @ ''/general/a.html'') 30,
               Write (''# Foo-1.0'' @ NL @ NL), Write (''make'' @ NL), Write NL,
               Write (''make install'' @ NL), Write NL,
               Get (BASE_URL @ ''/general/b.html'') 30,
               Write (''# Bar-2.0'' @ NL @ NL)])"
  by (simp add: run_simps)

lemma demo_broken:
  "fetch_chapter demo ''broken'' =
     (Inl (HTTPError 404), [Get (BASE_URL @ ''/broken/'') 30,
                            Get (BASE_URL @ ''/broken/a.html'') 30])"
  by (simp add: run_simps)

lemma demo_bare:
  "fetch_chapter demo ''bare'' =
     (Inl AttributeError, [Get (BASE_URL @ ''/bare/'') 30, Get (BASE_URL @ ''/bare/n.html'') 30])"
  by (simp add: run_simps)

lemma demo_moved: "fetch_chapter demo ''moved'' = (Inr (), [Get (BASE_URL @ ''/moved/'') 30])"
  by (simp add: run_simps)

lemma demo_inline:
  "fetch_chapter demo ''inline'' =
     (Inr (), [Get (BASE_URL @ ''/inline/'') 30, Get (BASE_URL @ ''/inline/t.html'') 30,
               Write (''# Foobar'' @ NL @ NL)])"
  by (simp add: run_simps)

lemma demo_get: "requests_get demo url t = map_of site url"
  by (simp add: demo_def)

lemma demo_general_index:
  "BeautifulSoup demo ''general index'' =
     [Element ''ul'' []
        [link ''a.html'' ''Foo'', link ''b.html'' ''Bar'', link ''index.html'' ''Up'']]"
  by (simp add: demo_def pages_def)

lemma demo_general_hrefs:
  "package_hrefs (BeautifulSoup demo ''general index'') = [''a.html'', ''b.html'']"
  by (simp add: demo_general_index package_hrefs_def link_def descendants_def endswith_def)

lemma demo_page_foo:
  "BeautifulSoup demo ''page foo'' =
     [Element ''h1'' [(''class'', ''sect1'')] [Text ''Foo-1.0''],
      Element ''pre'' [(''class'', ''userinput'')] [Text ''make''],
      Element ''pre'' [(''class'', ''screen'')] [Text ''ok''],
      Element ''pre'' [(''class'', ''userinput'')]
        [Element ''kbd'' [(''class'', ''command'')] [Text ''make install'']]]"
  by (simp add: demo_def pages_def)

lemma demo_page_bar:
  "BeautifulSoup demo ''page bar'' =
     [Element ''h1'' [] [Text ''Bar-2.0''], Element ''p'' [] [Text ''Nothing to run.'']]"
  by (simp add: demo_def pages_def)


lemma demo_page_inline:
  "BeautifulSoup demo ''page inline'' =
     [Element ''h1'' [] [Text ''Foo '', Element ''b'' [] [Text ''bar'']]]"
  by (simp add: demo_def pages_def)

lemmas text_simps = get_text_def all_strings_def descendants_def strip_def lstrip_def
  rstrip_def isspace_def

lemmas select_simps = find_h1_def select_pre_userinput_def descendants_def has_class_def
  split_ws_def isspace_def

lemma demo_ragged:
  "fetch_chapter demo ''ragged'' =
     (Inr (), [Get (BASE_URL @ ''/ragged/'') 30,
               Get (BASE_URL @ ''/ragged/a.html'' @ NL) 30, Write (''# Bar-2.0'' @ NL @ NL),
               Get (BASE_URL @ ''/ragged/index.html'' @ NL) 30, Write (''# Bar-2.0'' @ NL @ NL)])"
  by (simp add: run_simps NL_def)

lemma demo_ragged_hrefs:
  "package_hrefs (BeautifulSoup demo ''ragged index'') = [''a.html'' @ NL, ''index.html'' @ NL]"
  by (simp add: demo_def pages_def package_hrefs_def link_def descendants_def endswith_def NL_def)

lemmas ok_simps = chapter_ok_def page_ok_def demo_get site_def raise_for_status_def
  demo_general_hrefs demo_ragged_hrefs select_simps

lemma demo_ok:
  "chapter_ok demo ''general''" "\<not> chapter_ok demo ''broken''" "\<not> chapter_ok demo ''bare''"
  "chapter_ok demo ''inline''"
  by (simp_all add: fetch_chapter_exact(2) [symmetric] demo_general demo_broken demo_bare
        demo_inline)

lemma demo_general_anchors:
  "select_a_html (BeautifulSoup demo ''general index'')
     = [link ''a.html'' ''Foo'', link ''b.html'' ''Bar'', link ''index.html'' ''Up'']"
  by (simp add: demo_general_index select_a_html_def href_html_def link_def descendants_def
        endswith_def)

lemma demo_ragged_anchors:
  "select_a_html (BeautifulSoup demo ''ragged index'')
     = [link (''a.html'' @ NL) ''Foo'', link (''index.html'' @ NL) ''Up'']"
  by (simp add: demo_def pages_def select_a_html_def href_html_def link_def descendants_def
        endswith_def NL_def)

section \<open>The entry point without chapters\<close>

text \<open>
  C3. When \<open>sys.argv\<close> holds no chapter identifier (nothing after the program name), the
  program writes the usage line to standard output, leaves through \<open>sys.exit(1)\<close> with
  exit status 1, and sends no request at all.
\<close>

theorem main_without_chapters:
  assumes "drop 1 argv = []"
  shows "main w argv = (Inl (SystemExit 1), [Write (usage @ NL)])
       \<and> stdout (snd (main w argv)) = usage @ NL
       \<and> exit_status (fst (main w argv)) = 1
       \<and> requests (snd (main w argv)) = []"
proof -
  from assms have "length argv < 2" by (cases argv) simp_all
  then show ?thesis by (simp add: main_def print_def)
qed

theorem main_without_chapters_witness:
  "drop 1 [''fetch_blfs_sections.py''] = []
   \<and> main demo [''fetch_blfs_sections.py''] = (Inl (SystemExit 1), [Write (usage @ NL)])
   \<and> stdout (snd (main demo [''fetch_blfs_sections.py''])) = usage @ NL
   \<and> exit_status (fst (main demo [''fetch_blfs_sections.py''])) = 1
   \<and> requests (snd (main demo [''fetch_blfs_sections.py''])) = []"
  using main_without_chapters [of "[''fetch_blfs_sections.py'']" demo] by simp

section \<open>What a package page prints\<close>

text \<open>
  C2, as amended. For a package page that is fetched (the response passes
  \<open>raise_for_status\<close>) and whose first level-1 heading is \<open>h\<close>, \<open>fetch_package\<close> returns
  normally and prints the line \<open># T\<close> and a blank line, where \<open>T\<close> is made of the text
  fragments of \<open>h\<close> in document order, each stripped of leading and trailing white space, the
  empty ones dropped, joined without separator; then, for each \<open>pre.userinput\<close> node in
  document order, its stripped text and a blank line. Nothing else is printed: the events
  after the title are one pair of writes per node.
\<close>

theorem fetch_package_prints:
  assumes "requests_get w url 30 = Some r" and "raise_for_status r = None"
    and "find_h1 (BeautifulSoup w (rtext r)) = Some h"
  shows "fetch_package w url =
           (Inr (), Get url 30
              # Write (''# '' @ concat (filter (\<lambda>s. s \<noteq> []) (map strip (all_strings h))) @ NL @ NL)
              # concat (map (\<lambda>pre. [Write (strip (get_text False pre) @ NL), Write NL])
                         (select_pre_userinput (BeautifulSoup w (rtext r)))))
       \<and> stdout (snd (fetch_package w url)) =
           ''# '' @ concat (filter (\<lambda>s. s \<noteq> []) (map strip (all_strings h))) @ NL @ NL
           @ concat (map (\<lambda>pre. strip (get_text False pre) @ NL @ NL)
                      (select_pre_userinput (BeautifulSoup w (rtext r))))"
proof -
  have "stdout (concat (map (\<lambda>pre. [Write (strip (get_text False pre) @ NL), Write NL]) pres))
      = concat (map (\<lambda>pre. strip (get_text False pre) @ NL @ NL) pres)" for pres
    by (induction pres) simp_all
  with assms show ?thesis
    by (simp add: fetch_package_ok print_blocks_concat print_def get_text_def)
qed

theorem fetch_package_prints_witness:
  "requests_get demo (BASE_URL @ ''/general/a.html'') 30
     = Some \<lparr>status_code = 200, rtext = ''page foo''\<rparr>
   \<and> raise_for_status \<lparr>status_code = 200, rtext = ''page foo''\<rparr> = None
   \<and> find_h1 (BeautifulSoup demo ''page foo'')
       = Some (Element ''h1'' [(''class'', ''sect1'')] [Text ''Foo-1.0''])
   \<and> stdout (snd (fetch_package demo (BASE_URL @ ''/general/a.html'')))
       = ''# Foo-1.0'' @ NL @ NL @ ''make'' @ NL @ NL @ ''make install'' @ NL @ NL"
proof -
  have g: "requests_get demo (BASE_URL @ ''/general/a.html'') 30
         = Some \<lparr>status_code = 200, rtext = ''page foo''\<rparr>"
    by (simp add: demo_get site_def)
  have s: "raise_for_status \<lparr>status_code = 200, rtext = ''page foo''\<rparr> = None"
    by (simp add: raise_for_status_def)
  have h: "find_h1 (BeautifulSoup demo (rtext \<lparr>status_code = 200, rtext = ''page foo''\<rparr>))
         = Some (Element ''h1'' [(''class'', ''sect1'')] [Text ''Foo-1.0''])"
    by (simp add: demo_page_foo select_simps)
  from fetch_package_prints [OF g s h] g s h show ?thesis
    by (simp add: demo_page_foo select_simps text_simps)
qed

text \<open>
  C2, counterexample. The heading of the page \<open>inline/t.html\<close> has the text \<open>Foo bar\<close>
  (\<open>Foo\<close>, a space, and \<open>bar\<close> in bold), and the page has no command block; the claim
  asks for the line \<open># Foo bar\<close>, the program prints \<open># Foobar\<close>.
\<close>

theorem heading_text_counterexample:
  "requests_get demo (BASE_URL @ ''/inline/t.html'') 30
     = Some \<lparr>status_code = 200, rtext = ''page inline''\<rparr>
   \<and> find_h1 (BeautifulSoup demo ''page inline'')
       = Some (Element ''h1'' [] [Text ''Foo '', Element ''b'' [] [Text ''bar'']])
   \<and> get_text False (Element ''h1'' [] [Text ''Foo '', Element ''b'' [] [Text ''bar'']])
       = ''Foo bar''
   \<and> select_pre_userinput (BeautifulSoup demo ''page inline'') = []
   \<and> stdout (snd (fetch_package demo (BASE_URL @ ''/inline/t.html''))) = ''# Foobar'' @ NL @ NL
   \<and> stdout (snd (fetch_package demo (BASE_URL @ ''/inline/t.html''))) \<noteq> ''# Foo bar'' @ NL @ NL"
  by (simp add: run_simps)

text \<open>
  C9. For a package page that is fetched, has a level-1 heading and has no
  \<open>pre.userinput\<close> node, \<open>fetch_package\<close> returns normally and prints the title line
  \<open># title\<close> and one blank line, nothing else.
\<close>

theorem fetch_package_without_blocks:
  assumes "requests_get w url 30 = Some r" and "raise_for_status r = None"
    and "find_h1 (BeautifulSoup w (rtext r)) = Some h"
    and "select_pre_userinput (BeautifulSoup w (rtext r)) = []"
  shows "fetch_package w url = (Inr (), [Get url 30, Write (''# '' @ get_text True h @ NL @ NL)])
       \<and> stdout (snd (fetch_package w url)) = ''# '' @ get_text True h @ NL @ NL"
  using assms by (simp add: fetch_package_ok print_def)

theorem fetch_package_without_blocks_witness:
  "requests_get demo (BASE_URL @ ''/general/b.html'') 30
     = Some \<lparr>status_code = 200, rtext = ''page bar''\<rparr>
   \<and> raise_for_status \<lparr>status_code = 200, rtext = ''page bar''\<rparr> = None
   \<and> find_h1 (BeautifulSoup demo ''page bar'') = Some (Element ''h1'' [] [Text ''Bar-2.0''])
   \<and> select_pre_userinput (BeautifulSoup demo ''page bar'') = []
   \<and> fetch_package demo (BASE_URL @ ''/general/b.html'')
       = (Inr (), [Get (BASE_URL @ ''/general/b.html'') 30, Write (''# Bar-2.0'' @ NL @ NL)])
   \<and> stdout (snd (fetch_package demo (BASE_URL @ ''/general/b.html''))) = ''# Bar-2.0'' @ NL @ NL"
proof -
  have g: "requests_get demo (BASE_URL @ ''/general/b.html'') 30
         = Some \<lparr>status_code = 200, rtext = ''page bar''\<rparr>"
    by (simp add: demo_get site_def)
  have s: "raise_for_status \<lparr>status_code = 200, rtext = ''page bar''\<rparr> = None"
    by (simp add: raise_for_status_def)
  have h: "find_h1 (BeautifulSoup demo (rtext \<lparr>status_code = 200, rtext = ''page bar''\<rparr>))
         = Some (Element ''h1'' [] [Text ''Bar-2.0''])"
    by (simp add: demo_page_bar select_simps)
  have p: "select_pre_userinput (BeautifulSoup demo (rtext \<lparr>status_code = 200, rtext = ''page bar''\<rparr>))
         = []"
    by (simp add: demo_page_bar select_simps)
  from fetch_package_without_blocks [OF g s h p] g s h p show ?thesis
    by (simp add: text_simps)
qed

section \<open>Pages that end the run\<close>



text \<open>
  C4, as amended. When a run fetches a page, index or package page, whose response has a
  status from 400 to 599, \<open>raise_for_status\<close> raises \<open>HTTPError\<close> and nothing catches it:
  the request is the last event of the whole run (no later page or chapter is fetched,
  nothing more is printed), which ends with that error and exit status 1.
\<close>

theorem http_error_ends_run:
  assumes "snd (main w argv) = pre @ Get u t # post"
    and "requests_get w u t = Some r"
    and "400 \<le> status_code r" and "status_code r < 600"
  shows "post = []
       \<and> fst (main w argv) = Inl (HTTPError (status_code r))
       \<and> exit_status (fst (main w argv)) = 1"
proof -
  have "stops_at (http_failure w) (main w argv)"
    by (rule stops_main) (simp_all add: stops_fetch_chapter_http)
  moreover from assms(2-4) have "http_failure w (Get u t) = Some (HTTPError (status_code r))"
    by (simp add: http_failure_def raise_for_status_def)
  ultimately have "post = [] \<and> fst (main w argv) = Inl (HTTPError (status_code r))"
    using assms(1) unfolding stops_at_def by blast
  then show ?thesis by simp
qed

theorem http_error_ends_run_witness:
  "snd (main demo [''fetch_blfs_sections.py'', ''broken'', ''general''])
     = [Get (BASE_URL @ ''/broken/'') 30] @ Get (BASE_URL @ ''/broken/a.html'') 30 # []
   \<and> requests_get demo (BASE_URL @ ''/broken/a.html'') 30
       = Some \<lparr>status_code = 404, rtext = ''not found''\<rparr>
   \<and> fst (main demo [''fetch_blfs_sections.py'', ''broken'', ''general'']) = Inl (HTTPError 404)
   \<and> exit_status (fst (main demo [''fetch_blfs_sections.py'', ''broken'', ''general''])) = 1"
proof -
  have m: "snd (main demo [''fetch_blfs_sections.py'', ''broken'', ''general''])
         = [Get (BASE_URL @ ''/broken/'') 30] @ Get (BASE_URL @ ''/broken/a.html'') 30 # []"
    by (simp add: main_def demo_broken and_then_def)
  have g: "requests_get demo (BASE_URL @ ''/broken/a.html'') 30
         = Some \<lparr>status_code = 404, rtext = ''not found''\<rparr>"
    by (simp add: demo_get site_def)
  have lo: "400 \<le> status_code \<lparr>status_code = 404, rtext = ''not found''\<rparr>" by simp
  have hi: "status_code \<lparr>status_code = 404, rtext = ''not found''\<rparr> < 600" by simp
  from http_error_ends_run [OF m g lo hi] m g show ?thesis by simp
qed

text \<open>
  C4, counterexample. The index of the chapter \<open>moved\<close> answers with status 300, which is
  not a 2xx status; no error is raised, the run goes on to the chapter \<open>general\<close> and
  ends with exit status 0.
\<close>

theorem status_300_counterexample:
  "requests_get demo (BASE_URL @ ''/moved/'') 30 = Some \<lparr>status_code = 300, rtext = []\<rparr>
   \<and> main demo [''fetch_blfs_sections.py'', ''moved'', ''general''] =
       (Inr (), [Get (BASE_URL @ ''/moved/'') 30,
                 Get (BASE_URL @ ''/general/'') 30,
                 Get (BASE_URL @ ''/general/a.html'') 30,
                 Write (''# Foo-1.0'' @ NL @ NL), Write (''make'' @ NL), Write NL,
                 Write (''make install'' @ NL), Write NL,
                 Get (BASE_URL @ ''/general/b.html'') 30,
                 Write (''# Bar-2.0'' @ NL @ NL)])
   \<and> exit_status (fst (main demo [''fetch_blfs_sections.py'', ''moved'', ''general''])) = 0"
  by (simp add: main_def demo_moved demo_general and_then_def demo_get site_def)

section \<open>The text of a command block\<close>

text \<open>
  C5. On a fetched package page, what is printed for each \<open>pre.userinput\<close> node is its
  text content stripped, then a blank line. The stripped text is the text content without
  a leading and a trailing run of white space: it is a contiguous piece of the content, so
  everything inside is kept as it is, and when it is not empty it neither begins nor ends
  with white space.
\<close>

theorem command_block_text:
  assumes "requests_get w url 30 = Some r" and "raise_for_status r = None"
    and "find_h1 (BeautifulSoup w (rtext r)) = Some h"
  shows "snd (fetch_package w url) =
           Get url 30 # Write (''# '' @ get_text True h @ NL @ NL)
             # concat (map (\<lambda>pre. [Write (strip (get_text False pre) @ NL), Write NL])
                        (select_pre_userinput (BeautifulSoup w (rtext r))))
       \<and> (\<exists>l r. get_text False pre = l @ strip (get_text False pre) @ r
                \<and> list_all isspace l \<and> list_all isspace r)
       \<and> (strip (get_text False pre) \<noteq> [] \<longrightarrow>
            \<not> isspace (hd (strip (get_text False pre)))
            \<and> \<not> isspace (last (strip (get_text False pre))))"
  using assms strip_decomp [of "get_text False pre"] strip_ends [of "get_text False pre"]
  by (simp add: fetch_package_ok print_blocks_concat print_def)

theorem command_block_text_witness:
  "requests_get demo (BASE_URL @ ''/general/a.html'') 30
     = Some \<lparr>status_code = 200, rtext = ''page foo''\<rparr>
   \<and> find_h1 (BeautifulSoup demo ''page foo'')
       = Some (Element ''h1'' [(''class'', ''sect1'')] [Text ''Foo-1.0''])
   \<and> snd (fetch_package demo (BASE_URL @ ''/general/a.html'')) =
       [Get (BASE_URL @ ''/general/a.html'') 30, Write (''# Foo-1.0'' @ NL @ NL),
        Write (''make'' @ NL), Write NL, Write (''make install'' @ NL), Write NL]
   \<and> get_text False padded_block
       = NL @ '' ./configure  --prefix=/usr &&'' @ NL @ ''make '' @ '' '' @ NL
   \<and> strip (get_text False padded_block) = ''./configure  --prefix=/usr &&'' @ NL @ ''make''
   \<and> hd (strip (get_text False padded_block)) = CHR ''.''
   \<and> last (strip (get_text False padded_block)) = CHR ''e''"
proof -
  have g: "requests_get demo (BASE_URL @ ''/general/a.html'') 30
         = Some \<lparr>status_code = 200, rtext = ''page foo''\<rparr>"
    by (simp add: demo_get site_def)
  have s: "raise_for_status \<lparr>status_code = 200, rtext = ''page foo''\<rparr> = None"
    by (simp add: raise_for_status_def)
  have h: "find_h1 (BeautifulSoup demo (rtext \<lparr>status_code = 200, rtext = ''page foo''\<rparr>))
         = Some (Element ''h1'' [(''class'', ''sect1'')] [Text ''Foo-1.0''])"
    by (simp add: demo_page_foo select_simps)
  have t: "strip (get_text False padded_block) = ''./configure  --prefix=/usr &&'' @ NL @ ''make''"
    by (simp add: padded_block_def text_simps NL_def)
  have n: "strip (get_text False padded_block) \<noteq> []"
    by (simp add: t)
  from command_block_text [OF g s h, of padded_block] g h t n show ?thesis
    by (simp add: demo_page_foo select_simps text_simps padded_block_def NL_def)
qed

section \<open>The package pages of a chapter\<close>

text \<open>
  C1, as amended. When the index page of a chapter is fetched, the package pages that
  \<open>fetch_chapter\<close> requests are, in the order of the markup, the anchors whose \<open>href\<close> ends
  in \<open>.html\<close>, or in \<open>.html\<close> and one final newline, and is not exactly \<open>index.html\<close>, up
  to and including the first whose page is not fetched and printed (no response, a status
  from 400 to 599, or no level-1 heading): all of them when there is no such page, and none
  after it. \<open>index.html\<close> is never fetched as a package page.
\<close>

theorem fetch_chapter_package_pages:
  assumes "requests_get w (BASE_URL @ ''/'' @ ch @ ''/'') 30 = Some r"
    and "raise_for_status r = None"
  shows "requests (snd (fetch_chapter w ch))
           = Get (BASE_URL @ ''/'' @ ch @ ''/'') 30
             # map (\<lambda>h. Get (BASE_URL @ ''/'' @ ch @ ''/'' @ h) 30)
                 (takeWhile (\<lambda>h. page_ok w (BASE_URL @ ''/'' @ ch @ ''/'' @ h))
                    (package_hrefs (BeautifulSoup w (rtext r)))
                  @ take 1 (dropWhile (\<lambda>h. page_ok w (BASE_URL @ ''/'' @ ch @ ''/'' @ h))
                              (package_hrefs (BeautifulSoup w (rtext r)))))
       \<and> (list_all (\<lambda>h. page_ok w (BASE_URL @ ''/'' @ ch @ ''/'' @ h))
             (package_hrefs (BeautifulSoup w (rtext r))) \<longrightarrow>
            requests (snd (fetch_chapter w ch))
              = Get (BASE_URL @ ''/'' @ ch @ ''/'') 30
                # map (\<lambda>h. Get (BASE_URL @ ''/'' @ ch @ ''/'' @ h) 30)
                    (package_hrefs (BeautifulSoup w (rtext r))))
       \<and> Get (BASE_URL @ ''/'' @ ch @ ''/'' @ ''index.html'') 30 \<notin> set (snd (fetch_chapter w ch))"
proof -
  have "requests (snd (fetch_chapter w ch))
      = Get (BASE_URL @ ''/'' @ ch @ ''/'') 30
        # map (\<lambda>h. Get (BASE_URL @ ''/'' @ ch @ ''/'' @ h) 30)
            (up_to_first_failure (\<lambda>h. page_ok w (BASE_URL @ ''/'' @ ch @ ''/'' @ h))
               (package_hrefs (BeautifulSoup w (rtext r))))"
    using assms by (simp add: fetch_chapter_exact(1) chapter_requests_def)
  then show ?thesis
    using index_html_not_fetched [of ch w]
    by (auto simp: up_to_first_failure_all) (simp add: up_to_first_failure_def)
qed

theorem fetch_chapter_package_pages_witness:
  "requests_get demo (BASE_URL @ ''/general/'') 30
     = Some \<lparr>status_code = 200, rtext = ''general index''\<rparr>
   \<and> raise_for_status \<lparr>status_code = 200, rtext = ''general index''\<rparr> = None
   \<and> package_hrefs (BeautifulSoup demo ''general index'') = [''a.html'', ''b.html'']
   \<and> page_ok demo (BASE_URL @ ''/general/a.html'')
   \<and> page_ok demo (BASE_URL @ ''/general/b.html'')
   \<and> requests (snd (fetch_chapter demo ''general''))
       = [Get (BASE_URL @ ''/general/'') 30, Get (BASE_URL @ ''/general/a.html'') 30,
          Get (BASE_URL @ ''/general/b.html'') 30]"
proof -
  have g: "requests_get demo (BASE_URL @ ''/'' @ ''general'' @ ''/'') 30
         = Some \<lparr>status_code = 200, rtext = ''general index''\<rparr>"
    by (simp add: demo_get site_def)
  have s: "raise_for_status \<lparr>status_code = 200, rtext = ''general index''\<rparr> = None"
    by (simp add: raise_for_status_def)
  have a: "page_ok demo (BASE_URL @ ''/general/a.html'')"
    by (simp add: page_ok_def demo_get site_def raise_for_status_def demo_page_foo select_simps)
  have b: "page_ok demo (BASE_URL @ ''/general/b.html'')"
    by (simp add: page_ok_def demo_get site_def raise_for_status_def demo_page_bar select_simps)
  from fetch_chapter_package_pages [OF g s] g s a b show ?thesis
    by (simp add: demo_general_hrefs)
qed

text \<open>
  C1, counterexample. The index of the chapter \<open>broken\<close> holds the links \<open>a.html\<close>,
  \<open>b.html\<close> and \<open>index.html\<close>; \<open>a.html\<close> answers 404, and \<open>b.html\<close>, which qualifies, is
  never fetched. The index of the chapter \<open>ragged\<close> holds two links whose \<open>href\<close> is
  \<open>a.html\<close> and \<open>index.html\<close> with a newline after it: neither ends in \<open>.html\<close>, and
  both are fetched as package pages.
\<close>

theorem package_pages_counterexample:
  "requests_get demo (BASE_URL @ ''/broken/'') 30
     = Some \<lparr>status_code = 200, rtext = ''general index''\<rparr>
   \<and> select_a_html (BeautifulSoup demo ''general index'')
       = [link ''a.html'' ''Foo'', link ''b.html'' ''Bar'', link ''index.html'' ''Up'']
   \<and> requests (snd (fetch_chapter demo ''broken''))
       = [Get (BASE_URL @ ''/broken/'') 30, Get (BASE_URL @ ''/broken/a.html'') 30]
   \<and> Get (BASE_URL @ ''/broken/b.html'') 30 \<notin> set (snd (fetch_chapter demo ''broken''))
   \<and> requests_get demo (BASE_URL @ ''/ragged/'') 30
       = Some \<lparr>status_code = 200, rtext = ''ragged index''\<rparr>
   \<and> select_a_html (BeautifulSoup demo ''ragged index'')
       = [link (''a.html'' @ NL) ''Foo'', link (''index.html'' @ NL) ''Up'']
   \<and> \<not> endswith (''a.html'' @ NL) ''.html''
   \<and> \<not> endswith (''index.html'' @ NL) ''.html''
   \<and> requests (snd (fetch_chapter demo ''ragged''))
       = [Get (BASE_URL @ ''/ragged/'') 30, Get (BASE_URL @ ''/ragged/a.html'' @ NL) 30,
          Get (BASE_URL @ ''/ragged/index.html'' @ NL) 30]"
  by (simp add: demo_broken demo_ragged demo_get site_def demo_general_anchors
        demo_ragged_anchors endswith_def NL_def)

section \<open>The requests of a run\<close>

text \<open>
  C6, as amended. The GET requests of a run are, in this order: for the chapters of the
  argument list in the order given, up to and including the first chapter that is not
  walked to its end, the index \<open>BASE_URL/ch/\<close> and then, when its response arrives and its
  status passes, \<open>BASE_URL/ch/h\<close> for the qualifying \<open>href\<close>s \<open>h\<close> of that index page in
  document order, up to and including the first page that is not fetched and printed. Each
  request carries the timeout 30, and there is no other request. An \<open>href\<close> qualifies when
  it ends in \<open>.html\<close>, or in \<open>.html\<close> and one final newline, and is not exactly
  \<open>index.html\<close>.
\<close>

theorem request_urls:
  "requests (snd (main w argv))
     = concat (map (chapter_requests w)
         (takeWhile (chapter_ok w) (drop 1 argv) @ take 1 (dropWhile (chapter_ok w) (drop 1 argv))))
   \<and> (Get u t \<in> set (snd (main w argv)) \<longrightarrow>
        t = 30 \<and> (\<exists>ch \<in> set (drop 1 argv).
          u = BASE_URL @ ''/'' @ ch @ ''/''
          \<or> (\<exists>r h. requests_get w (BASE_URL @ ''/'' @ ch @ ''/'') 30 = Some r
                 \<and> raise_for_status r = None
                 \<and> h \<in> set (package_hrefs (BeautifulSoup w (rtext r)))
                 \<and> u = BASE_URL @ ''/'' @ ch @ ''/'' @ h)))"
proof (rule conjI)
  show "requests (snd (main w argv))
     = concat (map (chapter_requests w)
         (takeWhile (chapter_ok w) (drop 1 argv) @ take 1 (dropWhile (chapter_ok w) (drop 1 argv))))"
  proof (cases "drop 1 argv = []")
    case True
    then have "length argv < 2" by (cases argv) simp_all
    with True show ?thesis by (simp add: main_def)
  next
    case False
    have "requests (snd (fetch_chapters w chs))
        = concat (map (chapter_requests w) (up_to_first_failure (chapter_ok w) chs))" for chs
      using fetch_chapters_exact [of w chs]
      by (simp add: requests_concat comp_def fetch_chapter_exact(1))
    with False show ?thesis by (simp add: main_chapters up_to_first_failure_def)
  qed
  show "Get u t \<in> set (snd (main w argv)) \<longrightarrow>
        t = 30 \<and> (\<exists>ch \<in> set (drop 1 argv).
          u = BASE_URL @ ''/'' @ ch @ ''/''
          \<or> (\<exists>r h. requests_get w (BASE_URL @ ''/'' @ ch @ ''/'') 30 = Some r
                 \<and> raise_for_status r = None
                 \<and> h \<in> set (package_hrefs (BeautifulSoup w (rtext r)))
                 \<and> u = BASE_URL @ ''/'' @ ch @ ''/'' @ h))"
  proof (rule impI)
    assume "Get u t \<in> set (snd (main w argv))"
    then obtain ch where "ch \<in> set (drop 1 argv)" "Get u t \<in> set (snd (fetch_chapter w ch))"
      using main_event_chapter by blast
    with fetch_chapter_gets [of u t w ch]
    show "t = 30 \<and> (\<exists>ch \<in> set (drop 1 argv).
          u = BASE_URL @ ''/'' @ ch @ ''/''
          \<or> (\<exists>r h. requests_get w (BASE_URL @ ''/'' @ ch @ ''/'') 30 = Some r
                 \<and> raise_for_status r = None
                 \<and> h \<in> set (package_hrefs (BeautifulSoup w (rtext r)))
                 \<and> u = BASE_URL @ ''/'' @ ch @ ''/'' @ h))"
      by blast
  qed
qed

theorem request_urls_witness:
  "chapter_ok demo ''general''
   \<and> chapter_requests demo ''general''
       = [Get (BASE_URL @ ''/general/'') 30, Get (BASE_URL @ ''/general/a.html'') 30,
          Get (BASE_URL @ ''/general/b.html'') 30]
   \<and> chapter_requests demo ''broken''
       = [Get (BASE_URL @ ''/broken/'') 30, Get (BASE_URL @ ''/broken/a.html'') 30]
   \<and> requests (snd (main demo [''fetch_blfs_sections.py'', ''general'', ''broken'', ''inline'']))
       = [Get (BASE_URL @ ''/general/'') 30, Get (BASE_URL @ ''/general/a.html'') 30,
          Get (BASE_URL @ ''/general/b.html'') 30,
          Get (BASE_URL @ ''/broken/'') 30, Get (BASE_URL @ ''/broken/a.html'') 30]
   \<and> Get (BASE_URL @ ''/broken/a.html'') 30
       \<in> set (snd (main demo [''fetch_blfs_sections.py'', ''general'', ''broken'', ''inline'']))"
proof -
  have g: "chapter_requests demo ''general''
       = [Get (BASE_URL @ ''/general/'') 30, Get (BASE_URL @ ''/general/a.html'') 30,
          Get (BASE_URL @ ''/general/b.html'') 30]"
    by (simp add: fetch_chapter_exact(1) [symmetric] demo_general)
  have b: "chapter_requests demo ''broken''
       = [Get (BASE_URL @ ''/broken/'') 30, Get (BASE_URL @ ''/broken/a.html'') 30]"
    by (simp add: fetch_chapter_exact(1) [symmetric] demo_broken)
  have m: "Get (BASE_URL @ ''/broken/a.html'') 30
       \<in> set (snd (main demo [''fetch_blfs_sections.py'', ''general'', ''broken'', ''inline'']))"
    by (simp add: main_def demo_general demo_broken and_then_def)
  from request_urls [of demo "[''fetch_blfs_sections.py'', ''general'', ''broken'', ''inline'']"
      "BASE_URL @ ''/broken/a.html''" 30] g b m demo_ok
  show ?thesis by simp
qed

text \<open>
  C6, counterexample. The chapters \<open>broken\<close> and \<open>general\<close> are given; \<open>b.html\<close> is a
  qualifying \<open>href\<close> of the index of \<open>broken\<close>. The page \<open>a.html\<close> of \<open>broken\<close> answers
  404: no request goes to \<open>BASE_URL/broken/b.html\<close>, and none to the index of \<open>general\<close>.
  In the chapter \<open>ragged\<close> a request goes to a page whose \<open>href\<close> does not end in
  \<open>.html\<close>, but in a newline after it.
\<close>

theorem unrequested_page_counterexample:
  "drop 1 [''fetch_blfs_sections.py'', ''broken'', ''general''] = [''broken'', ''general'']
   \<and> requests_get demo (BASE_URL @ ''/broken/'') 30
       = Some \<lparr>status_code = 200, rtext = ''general index''\<rparr>
   \<and> package_hrefs (BeautifulSoup demo ''general index'') = [''a.html'', ''b.html'']
   \<and> requests (snd (main demo [''fetch_blfs_sections.py'', ''broken'', ''general'']))
       = [Get (BASE_URL @ ''/broken/'') 30, Get (BASE_URL @ ''/broken/a.html'') 30]
   \<and> Get (BASE_URL @ ''/broken/b.html'') 30
       \<notin> set (snd (main demo [''fetch_blfs_sections.py'', ''broken'', ''general'']))
   \<and> Get (BASE_URL @ ''/general/'') 30
       \<notin> set (snd (main demo [''fetch_blfs_sections.py'', ''broken'', ''general'']))
   \<and> \<not> endswith (''a.html'' @ NL) ''.html''
   \<and> Get (BASE_URL @ ''/ragged/'' @ ''a.html'' @ NL) 30
       \<in> set (snd (main demo [''fetch_blfs_sections.py'', ''ragged'']))"
  by (simp add: main_def demo_broken demo_ragged and_then_def demo_get site_def
        demo_general_hrefs endswith_def NL_def)

section \<open>Chapters one after the other\<close>

text \<open>
  C7, as amended. With one or more chapter identifiers, the events of the run are the
  events of \<open>fetch_chapter\<close> for the identifiers in the order given, each once and one after
  the other, up to and including the first chapter that is not walked to its end; the output
  is the output of these chapters in that order. The exit status is 0 when every chapter is
  walked to its end (every response arrives, every status passes, and every package page has a
  level-1 heading), and 1 otherwise.
\<close>

theorem chapters_in_order:
  assumes "drop 1 argv \<noteq> []"
  shows "snd (main w argv)
           = concat (map (\<lambda>ch. snd (fetch_chapter w ch))
               (takeWhile (chapter_ok w) (drop 1 argv)
                @ take 1 (dropWhile (chapter_ok w) (drop 1 argv))))
       \<and> stdout (snd (main w argv))
           = concat (map (\<lambda>ch. stdout (snd (fetch_chapter w ch)))
               (takeWhile (chapter_ok w) (drop 1 argv)
                @ take 1 (dropWhile (chapter_ok w) (drop 1 argv))))
       \<and> exit_status (fst (main w argv)) = (if list_all (chapter_ok w) (drop 1 argv) then 0 else 1)"
proof -
  from assms have m: "main w argv = fetch_chapters w (drop 1 argv)" by (rule main_chapters)
  have ev: "snd (fetch_chapters w (drop 1 argv))
      = concat (map (\<lambda>ch. snd (fetch_chapter w ch))
          (up_to_first_failure (chapter_ok w) (drop 1 argv)))"
    and ok: "(fst (fetch_chapters w (drop 1 argv)) = Inr ()) = list_all (chapter_ok w) (drop 1 argv)"
    and ne: "\<And>n. fst (fetch_chapters w (drop 1 argv)) \<noteq> Inl (SystemExit n)"
    using fetch_chapters_exact [of w "drop 1 argv"] by simp_all
  have ex: "exit_status (fst (fetch_chapters w (drop 1 argv)))
      = (if list_all (chapter_ok w) (drop 1 argv) then 0 else 1)"
  proof (cases "fst (fetch_chapters w (drop 1 argv))")
    case (Inl e)
    with ok have "\<not> list_all (chapter_ok w) (drop 1 argv)" by simp
    moreover from Inl ne have "exit_status (Inl e :: error + unit) = 1" by (cases e) auto
    ultimately show ?thesis using Inl by simp
  next
    case (Inr u)
    with ok show ?thesis by simp
  qed
  from ev ex show ?thesis
    unfolding m by (simp add: up_to_first_failure_def stdout_concat comp_def)
qed

theorem chapters_in_order_witness:
  "drop 1 [''fetch_blfs_sections.py'', ''general'', ''inline''] = [''general'', ''inline'']
   \<and> chapter_ok demo ''general'' \<and> chapter_ok demo ''inline''
   \<and> snd (main demo [''fetch_blfs_sections.py'', ''general'', ''inline''])
       = snd (fetch_chapter demo ''general'') @ snd (fetch_chapter demo ''inline'')
   \<and> stdout (snd (main demo [''fetch_blfs_sections.py'', ''general'', ''inline'']))
       = ''# Foo-1.0'' @ NL @ NL @ ''make'' @ NL @ NL @ ''make install'' @ NL @ NL
         @ ''# Bar-2.0'' @ NL @ NL @ ''# Foobar'' @ NL @ NL
   \<and> exit_status (fst (main demo [''fetch_blfs_sections.py'', ''general'', ''inline''])) = 0"
proof -
  have n: "drop 1 [''fetch_blfs_sections.py'', ''general'', ''inline''] \<noteq> []" by simp
  from chapters_in_order [OF n, of demo] demo_ok show ?thesis
    by (simp add: demo_general demo_inline)
qed

text \<open>
  C7, counterexample. The chapters \<open>bare\<close> and \<open>general\<close> are given. Both requests of the
  run are answered with status 200, yet the page \<open>n.html\<close> has no heading: the exit status
  is 1 and the chapter \<open>general\<close> is never walked.
\<close>

theorem all_200_counterexample:
  "snd (main demo [''fetch_blfs_sections.py'', ''bare'', ''general''])
     = [Get (BASE_URL @ ''/bare/'') 30, Get (BASE_URL @ ''/bare/n.html'') 30]
   \<and> requests_get demo (BASE_URL @ ''/bare/'') 30
       = Some \<lparr>status_code = 200, rtext = ''bare index''\<rparr>
   \<and> requests_get demo (BASE_URL @ ''/bare/n.html'') 30
       = Some \<lparr>status_code = 200, rtext = ''page bare''\<rparr>
   \<and> fst (main demo [''fetch_blfs_sections.py'', ''bare'', ''general'']) = Inl AttributeError
   \<and> exit_status (fst (main demo [''fetch_blfs_sections.py'', ''bare'', ''general''])) = 1
   \<and> Get (BASE_URL @ ''/general/'') 30
       \<notin> set (snd (main demo [''fetch_blfs_sections.py'', ''bare'', ''general'']))"
  by (simp add: main_def demo_bare and_then_def demo_get site_def)

section \<open>Two runs on the same arguments and the same responses\<close>

text \<open>
  C10. Over a network that gives each request one answer (a fixed mapping from URLs to
  responses), any two runs of the program on the same argument list are the same run: they
  have the same standard output and the same exit status.
\<close>

theorem runs_agree:
  assumes "\<forall>url t a b. N url t a \<and> N url t b \<longrightarrow> a = b"
    and "main_run N P argv rn" and "main_run N P argv rn'"
  shows "stdout (snd rn') = stdout (snd rn)
       \<and> exit_status (fst rn') = exit_status (fst rn)
       \<and> rn' = rn"
  using main_run_unique [OF assms] by simp

theorem runs_agree_witness:
  "main_run (network_of demo) (BeautifulSoup demo) [''fetch_blfs_sections.py'', ''general'']
     (main demo [''fetch_blfs_sections.py'', ''general''])
   \<and> stdout (snd (main demo [''fetch_blfs_sections.py'', ''general'']))
       = ''# Foo-1.0'' @ NL @ NL @ ''make'' @ NL @ NL @ ''make install'' @ NL @ NL
         @ ''# Bar-2.0'' @ NL @ NL
   \<and> exit_status (fst (main demo [''fetch_blfs_sections.py'', ''general''])) = 0"
proof -
  have r: "main_run (network_of demo) (BeautifulSoup demo) [''fetch_blfs_sections.py'', ''general'']
             (main demo [''fetch_blfs_sections.py'', ''general''])"
    by (rule main_run_world)
  from runs_agree [OF network_of_fixed r r] r show ?thesis
    by (simp add: main_def demo_general and_then_def)
qed

text \<open>
  The hypothesis matters: over a network that may or may not answer, the same arguments
  have two runs with different exit statuses.
\<close>

lemma unreliable_network_two_runs:
  "main_run (\<lambda>url t a. a = None \<or> a = map_of site url) (BeautifulSoup demo)
     [''fetch_blfs_sections.py'', ''moved''] (Inl RequestException, [Get (BASE_URL @ ''/moved/'') 30])
   \<and> main_run (\<lambda>url t a. a = None \<or> a = map_of site url) (BeautifulSoup demo)
       [''fetch_blfs_sections.py'', ''moved''] (Inr (), [Get (BASE_URL @ ''/moved/'') 30])"
proof
  let ?N = "\<lambda>url t a. a = None \<or> a = map_of site url"
  let ?P = "BeautifulSoup demo"
  have "chapter_run ?N ?P ''moved'' (Inl RequestException, [Get (BASE_URL @ ''/'' @ ''moved'' @ ''/'') 30])"
    by (rule chapter_run.index_no_response) simp
  then have "chapters_run ?N ?P [''moved''] (Inl RequestException, [Get (BASE_URL @ ''/moved/'') 30])"
    using chapters_run.chapter_raised [of ?N ?P "''moved''"] by simp
  then show "main_run ?N ?P [''fetch_blfs_sections.py'', ''moved'']
      (Inl RequestException, [Get (BASE_URL @ ''/moved/'') 30])"
    by (intro main_run.arguments) simp_all
next
  let ?N = "\<lambda>url t a. a = None \<or> a = map_of site url"
  let ?P = "BeautifulSoup demo"
  have s: "select_a_html (?P []) = []"
    by (simp add: demo_def pages_def select_a_html_def descendants_def)
  have "?N (BASE_URL @ ''/'' @ ''moved'' @ ''/'') 30 (Some \<lparr>status_code = 300, rtext = []\<rparr>)"
    by (simp add: site_def)
  moreover have "raise_for_status \<lparr>status_code = 300, rtext = []\<rparr> = None"
    by (simp add: raise_for_status_def)
  moreover have "links_run ?N ?P ''moved''
      (select_a_html (?P (rtext \<lparr>status_code = 300, rtext = []\<rparr>))) (Inr (), [])"
    by (simp add: s links_run.no_link)
  ultimately have "chapter_run ?N ?P ''moved'' (Inr (), Get (BASE_URL @ ''/'' @ ''moved'' @ ''/'') 30 # [])"
    by (rule chapter_run.walked)
  then have "chapters_run ?N ?P [''moved''] (Inr (), [Get (BASE_URL @ ''/moved/'') 30])"
    using chapters_run.chapter_returned [of ?N ?P "''moved''" _ "[]" "Inr ()" "[]"]
    by (simp add: chapters_run.no_chapter)
  then show "main_run ?N ?P [''fetch_blfs_sections.py'', ''moved'']
      (Inr (), [Get (BASE_URL @ ''/moved/'') 30])"
    by (intro main_run.arguments) simp_all
qed

end
